theory Spec2Isabelle
  imports Main "HOL-Library.Word"
begin

section \<open>Basic types of the ledger\<close>

type_synonym byte = "8 word"
type_synonym address = "160 word"
type_synonym bytes32 = "256 word"

text \<open>Solidity's \<open>uint256\<close> values are modelled as natural numbers; checked arithmetic
  reverts with a panic once a result would exceed \<open>UINT256_MAX\<close>, and arithmetic inside
  an \<open>unchecked\<close> block wraps modulo \<open>2 ^ 256\<close>.\<close>

definition UINT256_MAX :: nat where
  "UINT256_MAX = 2 ^ 256 - 1"

text \<open>Role identifiers are 32-byte constants in the contract (\<open>keccak256\<close> of the role's
  name, and the zero word for \<open>DEFAULT_ADMIN_ROLE\<close>). They are pairwise distinct, which
  is all the contract uses, so they are a datatype here; \<open>OTHER_ROLE\<close> stands for any
  other 32-byte identifier that a caller may pass to the access-control entry points.\<close>

datatype role =
    DEFAULT_ADMIN_ROLE
  | MAIN_ADMIN_ROLE
  | COUNTRY_ADMIN_ROLE
  | STATE_ADMIN_ROLE
  | CITY_ADMIN_ROLE
  | PRODUCER_ROLE
  | BUYER_ROLE
  | AUDITOR_ROLE
  | OTHER_ROLE bytes32

text \<open>Every way a call can revert. \<open>Require msg\<close> is a failed \<open>require(cond, msg)\<close> of
  HydroCredToken.sol; the other constructors are the custom errors of the imported
  Pausable, AccessControl, ERC721 and ECDSA libraries, the arithmetic panic, and the
  revert data of a token receiver, which a safe mint or safe transfer passes on.\<close>

datatype error =
    Require string
  | Panic
  | EnforcedPause
  | ExpectedPause
  | AccessControlUnauthorizedAccount address role
  | AccessControlBadConfirmation
  | ERC721InvalidOwner address
  | ERC721NonexistentToken nat
  | ERC721IncorrectOwner address nat address
  | ERC721InvalidSender address
  | ERC721InvalidReceiver address
  | ERC721InsufficientApproval address nat
  | ERC721InvalidApprover address
  | ERC721InvalidOperator address
  | ECDSAInvalidSignature
  | ECDSAInvalidSignatureLength nat
  | ECDSAInvalidSignatureS nat
  | ReceiverRevert "byte list"

datatype event =
    CreditsIssued address nat nat nat bytes32
  | CreditRetired address nat nat
  | CountryAdminAppointed address nat address
  | StateAdminAppointed address nat address
  | CityAdminAppointed address nat address
  | ProducerRegistered address address
  | BuyerRegistered address
  | AuditorRegistered address address
  | Transfer address address nat
  | Approval address address nat
  | ApprovalForAll address address bool
  | RoleGranted role address address
  | RoleRevoked role address address
  | Paused address
  | Unpaused address

record CertificationData =
  producer :: address
  certifier :: address
  timestamp :: nat
  metadata :: string
  certificationHash :: bytes32

text \<open>The storage of the contract: the inherited ERC721, ERC721Enumerable, AccessControl
  and Pausable variables, then the variables HydroCredToken declares itself, then the log
  of emitted events (oldest first). A Solidity mapping is a total function whose default
  value is zero.\<close>

record state =
  owners :: "nat \<Rightarrow> address"
  balances :: "address \<Rightarrow> nat"
  tokenApprovals :: "nat \<Rightarrow> address"
  operatorApprovals :: "address \<Rightarrow> address \<Rightarrow> bool"
  ownedTokens :: "address \<Rightarrow> nat \<Rightarrow> nat"
  ownedTokensIndex :: "nat \<Rightarrow> nat"
  allTokens :: "nat list"
  allTokensIndex :: "nat \<Rightarrow> nat"
  roles :: "role \<Rightarrow> address \<Rightarrow> bool"
  paused :: bool
  nextTokenId :: nat
  isCountryAdmin :: "address \<Rightarrow> bool"
  countryAdminCountryId :: "address \<Rightarrow> nat"
  isStateAdmin :: "address \<Rightarrow> bool"
  stateAdminStateId :: "address \<Rightarrow> nat"
  isCityAdmin :: "address \<Rightarrow> bool"
  cityAdminCityId :: "address \<Rightarrow> nat"
  isProducer :: "address \<Rightarrow> bool"
  isBuyer :: "address \<Rightarrow> bool"
  isAuditor :: "address \<Rightarrow> bool"
  certificationHashUsed :: "bytes32 \<Rightarrow> bool"
  tokenCertifications :: "nat \<Rightarrow> CertificationData"
  isRetired :: "nat \<Rightarrow> bool"
  retiredBy :: "nat \<Rightarrow> address"
  retiredAt :: "nat \<Rightarrow> nat"
  tokenMetadata :: "nat \<Rightarrow> string"
  events :: "event list"

text \<open>Every state-changing entry point of the deployed contract, its own and the
  inherited ones.\<close>

datatype call =
    MintWithCertification address nat bytes32 "byte list"
  | AppointCountryAdmin address nat
  | AppointStateAdmin address nat
  | AppointCityAdmin address nat
  | RegisterProducer address
  | RegisterBuyer
  | RegisterAuditor address
  | Retire nat
  | Pause
  | Unpause
  | TransferFrom address address nat
  | SafeTransferFrom address address nat
  | Approve address nat
  | SetApprovalForAll address bool
  | GrantRole role address
  | RevokeRole role address
  | RenounceRole role address

text \<open>A safe mint or safe transfer to an account with code calls the account's
  \<open>onERC721Received\<close>. What that code does is not the ledger's to decide: given the
  operator, the previous owner, the token and the ledger state it finds, it may make calls
  back into the ledger, in its own name or through other contracts, and it ends by
  returning a value, which is or is not the expected selector, or by reverting with some
  data. A call the receiver makes and that reverts is skipped, as a \<open>try\<close> does. The
  ledger being deterministic, whatever the receiver would decide from the results of its
  calls is a function of the state it is called in. Gas is not modelled.\<close>

datatype hook_answer = Returned bool | Reverted "byte list"

type_synonym rcall = "address \<times> call"

type_synonym receiver = "address \<Rightarrow> address \<Rightarrow> nat \<Rightarrow> state \<Rightarrow> rcall list \<times> hook_answer"

text \<open>What the contract takes from its platform: the \<open>keccak256\<close> hash, the \<open>ecrecover\<close>
  precompile (which yields the zero address when no signer can be recovered) and the code
  of the accounts, as far as it answers \<open>onERC721Received\<close>; an account without code is
  \<open>None\<close>.\<close>

record env =
  keccak256 :: "byte list \<Rightarrow> bytes32"
  ecrecover :: "bytes32 \<Rightarrow> nat \<Rightarrow> nat \<Rightarrow> nat \<Rightarrow> address"
  code :: "address \<Rightarrow> receiver option"

text \<open>How the calls a receiver makes are carried out: \<open>None\<close> when the call depth is
  used up, so that the call to the receiver itself fails; otherwise the function that
  runs the receiver's calls from the state and block timestamp it is given.\<close>

type_synonym reentry = "(state \<Rightarrow> nat \<Rightarrow> rcall list \<Rightarrow> state) option"

section \<open>Byte encodings\<close>

text \<open>\<open>be_bytes n v\<close> is the big-endian representation of \<open>v\<close> on \<open>n\<close> bytes and
  \<open>be_nat\<close> reads one back.\<close>

fun be_bytes :: "nat \<Rightarrow> nat \<Rightarrow> byte list" where
  "be_bytes 0 v = []"
| "be_bytes (Suc n) v = be_bytes n (v div 256) @ [of_nat (v mod 256)]"

definition be_nat :: "byte list \<Rightarrow> nat" where
  "be_nat bs = foldl (\<lambda>acc b. acc * 256 + unat b) 0 bs"

definition ascii :: "string \<Rightarrow> byte list" where
  "ascii cs = map (\<lambda>c. of_nat (of_char c)) cs"

text \<open>\<open>abi.encodePacked(to, amount, certificationHash)\<close>: the 20 bytes of the address, then
  the 32 bytes of the amount, then the 32 bytes of the hash, without padding.\<close>

definition encodePacked :: "address \<Rightarrow> nat \<Rightarrow> bytes32 \<Rightarrow> byte list" where
  "encodePacked to amount h = be_bytes 20 (unat to) @ be_bytes 32 amount @ be_bytes 32 (unat h)"

text \<open>\<open>MessageHashUtils.toEthSignedMessageHash\<close> for a 32-byte digest.\<close>

definition toEthSignedMessageHash :: "env \<Rightarrow> bytes32 \<Rightarrow> bytes32" where
  "toEthSignedMessageHash E h =
     keccak256 E ([0x19] @ ascii ''Ethereum Signed Message:'' @ [0x0A] @ ascii ''32''
                  @ be_bytes 32 (unat h))"

section \<open>ECDSA recovery (OpenZeppelin \<open>ECDSA.recover\<close>)\<close>

definition SECP256K1_HALF_N :: nat where
  "SECP256K1_HALF_N = 0x7FFFFFFFFFFFFFFFFFFFFFFFFFFFFFFF5D576E7357A4501DDFE92F46681B20A0"

text \<open>\<open>tryRecover(hash, v, r, s)\<close>: rejects a malleable (upper-range) \<open>s\<close> and a failed
  \<open>ecrecover\<close>.\<close>

definition tryRecover_vrs :: "env \<Rightarrow> bytes32 \<Rightarrow> nat \<Rightarrow> nat \<Rightarrow> nat \<Rightarrow> error + address" where
  "tryRecover_vrs E h v r s =
     (if s > SECP256K1_HALF_N then Inl (ECDSAInvalidSignatureS s)
      else let signer = ecrecover E h v r s in
        if signer = 0 then Inl ECDSAInvalidSignature else Inr signer)"

text \<open>\<open>recover(hash, signature)\<close>: a signature is exactly 65 bytes, \<open>r\<close>, \<open>s\<close> and \<open>v\<close> in
  this order; every recovery error reverts the call.\<close>

definition recover :: "env \<Rightarrow> bytes32 \<Rightarrow> byte list \<Rightarrow> error + address" where
  "recover E h signature =
     (if length signature = 65
      then tryRecover_vrs E h (unat (signature ! 64))
             (be_nat (take 32 signature)) (be_nat (take 32 (drop 32 signature)))
      else Inl (ECDSAInvalidSignatureLength (length signature)))"

section \<open>Inherited library behaviour\<close>

text \<open>HydroCredToken inherits from the OpenZeppelin contracts ERC721, ERC721Enumerable,
  AccessControl and Pausable and uses the ECDSA library (release 5, going by the import
  paths and the \<open>_update\<close> hook the contract overrides). They are not part of the
  repository; the functions the contract reaches are written out here after the library.
  An identifier that starts with an underscore in Solidity has the prefix \<open>internal_\<close>
  here, or loses the underscore where no public function carries the same name.\<close>

subsection \<open>AccessControl\<close>

definition hasRole :: "state \<Rightarrow> role \<Rightarrow> address \<Rightarrow> bool" where
  "hasRole s r account = roles s r account"

text \<open>The modifier \<open>onlyRole(r)\<close> is \<open>checkRole s r msg.sender\<close>.\<close>

definition checkRole :: "state \<Rightarrow> role \<Rightarrow> address \<Rightarrow> error + unit" where
  "checkRole s r account =
     (if hasRole s r account then Inr () else Inl (AccessControlUnauthorizedAccount account r))"

definition internal_grantRole :: "state \<Rightarrow> address \<Rightarrow> role \<Rightarrow> address \<Rightarrow> state" where
  "internal_grantRole s sender r account =
     (if \<not> hasRole s r account
      then s\<lparr>roles := (roles s)(r := (roles s r)(account := True)),
             events := events s @ [RoleGranted r account sender]\<rparr>
      else s)"

definition internal_revokeRole :: "state \<Rightarrow> address \<Rightarrow> role \<Rightarrow> address \<Rightarrow> state" where
  "internal_revokeRole s sender r account =
     (if hasRole s r account
      then s\<lparr>roles := (roles s)(r := (roles s r)(account := False)),
             events := events s @ [RoleRevoked r account sender]\<rparr>
      else s)"

text \<open>The contract never calls \<open>_setRoleAdmin\<close>, so the admin role of every role is
  \<open>DEFAULT_ADMIN_ROLE\<close>.\<close>

definition getRoleAdmin :: "state \<Rightarrow> role \<Rightarrow> role" where
  "getRoleAdmin s r = DEFAULT_ADMIN_ROLE"

definition grantRole :: "state \<Rightarrow> address \<Rightarrow> role \<Rightarrow> address \<Rightarrow> error + state" where
  "grantRole s sender r account =
     (case checkRole s (getRoleAdmin s r) sender of
        Inl e \<Rightarrow> Inl e
      | Inr _ \<Rightarrow> Inr (internal_grantRole s sender r account))"

definition revokeRole :: "state \<Rightarrow> address \<Rightarrow> role \<Rightarrow> address \<Rightarrow> error + state" where
  "revokeRole s sender r account =
     (case checkRole s (getRoleAdmin s r) sender of
        Inl e \<Rightarrow> Inl e
      | Inr _ \<Rightarrow> Inr (internal_revokeRole s sender r account))"

definition renounceRole :: "state \<Rightarrow> address \<Rightarrow> role \<Rightarrow> address \<Rightarrow> error + state" where
  "renounceRole s sender r callerConfirmation =
     (if callerConfirmation \<noteq> sender then Inl AccessControlBadConfirmation
      else Inr (internal_revokeRole s sender r callerConfirmation))"

subsection \<open>Pausable\<close>

definition internal_pause :: "state \<Rightarrow> address \<Rightarrow> error + state" where
  "internal_pause s sender =
     (if paused s then Inl EnforcedPause
      else Inr (s\<lparr>paused := True, events := events s @ [Paused sender]\<rparr>))"

definition internal_unpause :: "state \<Rightarrow> address \<Rightarrow> error + state" where
  "internal_unpause s sender =
     (if \<not> paused s then Inl ExpectedPause
      else Inr (s\<lparr>paused := False, events := events s @ [Unpaused sender]\<rparr>))"

subsection \<open>ERC721\<close>

definition internal_ownerOf :: "state \<Rightarrow> nat \<Rightarrow> address" where
  "internal_ownerOf s tokenId = owners s tokenId"

definition balanceOf :: "state \<Rightarrow> address \<Rightarrow> error + nat" where
  "balanceOf s owner = (if owner = 0 then Inl (ERC721InvalidOwner 0) else Inr (balances s owner))"

definition isAuthorized :: "state \<Rightarrow> address \<Rightarrow> address \<Rightarrow> nat \<Rightarrow> bool" where
  "isAuthorized s owner spender tokenId \<longleftrightarrow>
     spender \<noteq> 0 \<and>
     (owner = spender \<or> operatorApprovals s owner spender \<or> tokenApprovals s tokenId = spender)"

definition checkAuthorized :: "state \<Rightarrow> address \<Rightarrow> address \<Rightarrow> nat \<Rightarrow> error + unit" where
  "checkAuthorized s owner spender tokenId =
     (if \<not> isAuthorized s owner spender tokenId
      then (if owner = 0 then Inl (ERC721NonexistentToken tokenId)
            else Inl (ERC721InsufficientApproval spender tokenId))
      else Inr ())"

text \<open>\<open>ERC721._update\<close>: checks the authorisation when \<open>auth\<close> is not zero, clears the
  token's approval, moves one unit of balance (in unchecked arithmetic) and records the
  new owner. It returns the previous owner.\<close>

definition ERC721_update :: "state \<Rightarrow> address \<Rightarrow> nat \<Rightarrow> address \<Rightarrow> error + address \<times> state" where
  "ERC721_update s to tokenId auth =
     (let from = internal_ownerOf s tokenId in
      case (if auth \<noteq> 0 then checkAuthorized s from auth tokenId else Inr ()) of
        Inl e \<Rightarrow> Inl e
      | Inr _ \<Rightarrow>
          let s1 = (if from \<noteq> 0
                    then s\<lparr>tokenApprovals := (tokenApprovals s)(tokenId := 0),
                           balances := (balances s)(from := (balances s from + UINT256_MAX) mod 2 ^ 256)\<rparr>
                    else s);
              s2 = (if to \<noteq> 0
                    then s1\<lparr>balances := (balances s1)(to := (balances s1 to + 1) mod 2 ^ 256)\<rparr>
                    else s1)
          in Inr (from, s2\<lparr>owners := (owners s2)(tokenId := to),
                           events := events s2 @ [Transfer from to tokenId]\<rparr>))"

definition approve :: "state \<Rightarrow> address \<Rightarrow> address \<Rightarrow> nat \<Rightarrow> error + state" where
  "approve s sender to tokenId =
     (let owner = internal_ownerOf s tokenId in
      if owner = 0 then Inl (ERC721NonexistentToken tokenId)
      else if sender \<noteq> 0 \<and> owner \<noteq> sender \<and> \<not> operatorApprovals s owner sender
        then Inl (ERC721InvalidApprover sender)
      else Inr (s\<lparr>tokenApprovals := (tokenApprovals s)(tokenId := to),
                  events := events s @ [Approval owner to tokenId]\<rparr>))"

definition setApprovalForAll :: "state \<Rightarrow> address \<Rightarrow> address \<Rightarrow> bool \<Rightarrow> error + state" where
  "setApprovalForAll s sender operator approved =
     (if operator = 0 then Inl (ERC721InvalidOperator operator)
      else Inr (s\<lparr>operatorApprovals :=
                    (operatorApprovals s)(sender := (operatorApprovals s sender)(operator := approved)),
                  events := events s @ [ApprovalForAll sender operator approved]\<rparr>))"

text \<open>\<open>ERC721Utils.checkOnERC721Received\<close>: nothing happens for a recipient without code.
  Otherwise the recipient's hook runs; the transfer stands when the hook returns the
  expected selector, and the call reverts with \<open>ERC721InvalidReceiver\<close> when it returns
  something else or fails without data, and with the hook's own data when it reverts with
  some. The state the hook leaves is the state after the calls it made.\<close>

definition checkOnERC721Received ::
  "reentry \<Rightarrow> env \<Rightarrow> state \<Rightarrow> nat \<Rightarrow> address \<Rightarrow> address \<Rightarrow> address \<Rightarrow> nat \<Rightarrow> error + state" where
  "checkOnERC721Received R E s now operator from to tokenId =
     (case code E to of
        None \<Rightarrow> Inr s
      | Some hook \<Rightarrow>
          (case R of
             None \<Rightarrow> Inl (ERC721InvalidReceiver to)
           | Some reenter \<Rightarrow>
               (case hook operator from tokenId s of
                  (calls, Returned retval) \<Rightarrow>
                    if retval then Inr (reenter s now calls) else Inl (ERC721InvalidReceiver to)
                | (calls, Reverted reason) \<Rightarrow>
                    if reason = [] then Inl (ERC721InvalidReceiver to)
                    else Inl (ReceiverRevert reason))))"

subsection \<open>ERC721Enumerable\<close>

definition totalSupply :: "state \<Rightarrow> nat" where
  "totalSupply s = length (allTokens s)"

definition addTokenToAllTokensEnumeration :: "state \<Rightarrow> nat \<Rightarrow> state" where
  "addTokenToAllTokensEnumeration s tokenId =
     s\<lparr>allTokensIndex := (allTokensIndex s)(tokenId := length (allTokens s)),
       allTokens := allTokens s @ [tokenId]\<rparr>"

definition removeTokenFromAllTokensEnumeration :: "state \<Rightarrow> nat \<Rightarrow> error + state" where
  "removeTokenFromAllTokensEnumeration s tokenId =
     (if allTokens s = [] then Inl Panic
      else let lastTokenIndex = length (allTokens s) - 1;
               tokenIndex = allTokensIndex s tokenId;
               lastTokenId = allTokens s ! lastTokenIndex
           in if tokenIndex \<ge> length (allTokens s) then Inl Panic
              else Inr (s\<lparr>allTokens := butlast ((allTokens s)[tokenIndex := lastTokenId]),
                          allTokensIndex :=
                            ((allTokensIndex s)(lastTokenId := tokenIndex))(tokenId := 0)\<rparr>))"

definition addTokenToOwnerEnumeration :: "state \<Rightarrow> address \<Rightarrow> nat \<Rightarrow> error + state" where
  "addTokenToOwnerEnumeration s to tokenId =
     (case balanceOf s to of
        Inl e \<Rightarrow> Inl e
      | Inr b \<Rightarrow>
          if b = 0 then Inl Panic
          else let len = b - 1 in
            Inr (s\<lparr>ownedTokens := (ownedTokens s)(to := (ownedTokens s to)(len := tokenId)),
                   ownedTokensIndex := (ownedTokensIndex s)(tokenId := len)\<rparr>))"

definition removeTokenFromOwnerEnumeration :: "state \<Rightarrow> address \<Rightarrow> nat \<Rightarrow> error + state" where
  "removeTokenFromOwnerEnumeration s from tokenId =
     (case balanceOf s from of
        Inl e \<Rightarrow> Inl e
      | Inr lastTokenIndex \<Rightarrow>
          let tokenIndex = ownedTokensIndex s tokenId;
              byOwner = ownedTokens s from;
              lastTokenId = byOwner lastTokenIndex;
              byOwner1 = (if tokenIndex \<noteq> lastTokenIndex
                          then byOwner(tokenIndex := lastTokenId) else byOwner);
              index1 = (if tokenIndex \<noteq> lastTokenIndex
                        then (ownedTokensIndex s)(lastTokenId := tokenIndex)
                        else ownedTokensIndex s)
          in Inr (s\<lparr>ownedTokensIndex := index1(tokenId := 0),
                    ownedTokens := (ownedTokens s)(from := byOwner1(lastTokenIndex := 0))\<rparr>))"

definition Enumerable_update :: "state \<Rightarrow> address \<Rightarrow> nat \<Rightarrow> address \<Rightarrow> error + address \<times> state" where
  "Enumerable_update s to tokenId auth =
     (case ERC721_update s to tokenId auth of
        Inl e \<Rightarrow> Inl e
      | Inr (previousOwner, s1) \<Rightarrow>
          (case (if previousOwner = 0 then Inr (addTokenToAllTokensEnumeration s1 tokenId)
                 else if previousOwner \<noteq> to
                   then removeTokenFromOwnerEnumeration s1 previousOwner tokenId
                 else Inr s1) of
             Inl e \<Rightarrow> Inl e
           | Inr s2 \<Rightarrow>
               (case (if to = 0 then removeTokenFromAllTokensEnumeration s2 tokenId
                      else if previousOwner \<noteq> to then addTokenToOwnerEnumeration s2 to tokenId
                      else Inr s2) of
                  Inl e \<Rightarrow> Inl e
                | Inr s3 \<Rightarrow> Inr (previousOwner, s3))))"

section \<open>HydroCredToken\<close>

subsection \<open>Token movement\<close>

text \<open>The contract's override of \<open>_update\<close>: the modifier \<open>whenNotPaused\<close> runs first,
  then an existing token must not be retired, then the inherited update runs.\<close>

definition internal_update :: "state \<Rightarrow> address \<Rightarrow> nat \<Rightarrow> address \<Rightarrow> error + address \<times> state" where
  "internal_update s to tokenId auth =
     (if paused s then Inl EnforcedPause
      else let from = internal_ownerOf s tokenId in
        if from \<noteq> 0 \<and> isRetired s tokenId then Inl (Require ''Cannot transfer retired credit'')
        else Enumerable_update s to tokenId auth)"

definition transferFrom :: "state \<Rightarrow> address \<Rightarrow> address \<Rightarrow> address \<Rightarrow> nat \<Rightarrow> error + state" where
  "transferFrom s sender from to tokenId =
     (if to = 0 then Inl (ERC721InvalidReceiver 0)
      else case internal_update s to tokenId sender of
        Inl e \<Rightarrow> Inl e
      | Inr (previousOwner, s1) \<Rightarrow>
          if previousOwner \<noteq> from then Inl (ERC721IncorrectOwner from tokenId previousOwner)
          else Inr s1)"

definition safeTransferFrom ::
  "reentry \<Rightarrow> env \<Rightarrow> state \<Rightarrow> nat \<Rightarrow> address \<Rightarrow> address \<Rightarrow> address \<Rightarrow> nat \<Rightarrow> error + state" where
  "safeTransferFrom R E s now sender from to tokenId =
     (case transferFrom s sender from to tokenId of
        Inl e \<Rightarrow> Inl e
      | Inr s1 \<Rightarrow> checkOnERC721Received R E s1 now sender from to tokenId)"

definition internal_mint :: "state \<Rightarrow> address \<Rightarrow> nat \<Rightarrow> error + state" where
  "internal_mint s to tokenId =
     (if to = 0 then Inl (ERC721InvalidReceiver 0)
      else case internal_update s to tokenId 0 of
        Inl e \<Rightarrow> Inl e
      | Inr (previousOwner, s1) \<Rightarrow>
          if previousOwner \<noteq> 0 then Inl (ERC721InvalidSender 0) else Inr s1)"

definition internal_safeMint ::
  "reentry \<Rightarrow> env \<Rightarrow> state \<Rightarrow> nat \<Rightarrow> address \<Rightarrow> address \<Rightarrow> nat \<Rightarrow> error + state" where
  "internal_safeMint R E s now operator to tokenId =
     (case internal_mint s to tokenId of
        Inl e \<Rightarrow> Inl e
      | Inr s1 \<Rightarrow> checkOnERC721Received R E s1 now operator 0 to tokenId)"

subsection \<open>Construction\<close>

definition empty_certification :: CertificationData where
  "empty_certification =
     \<lparr>producer = 0, certifier = 0, timestamp = 0, metadata = [], certificationHash = 0\<rparr>"

definition initial_storage :: state where
  "initial_storage =
     \<lparr>owners = (\<lambda>_. 0), balances = (\<lambda>_. 0), tokenApprovals = (\<lambda>_. 0),
      operatorApprovals = (\<lambda>_ _. False), ownedTokens = (\<lambda>_ _. 0), ownedTokensIndex = (\<lambda>_. 0),
      allTokens = [], allTokensIndex = (\<lambda>_. 0), roles = (\<lambda>_ _. False), paused = False,
      nextTokenId = 1,
      isCountryAdmin = (\<lambda>_. False), countryAdminCountryId = (\<lambda>_. 0),
      isStateAdmin = (\<lambda>_. False), stateAdminStateId = (\<lambda>_. 0),
      isCityAdmin = (\<lambda>_. False), cityAdminCityId = (\<lambda>_. 0),
      isProducer = (\<lambda>_. False), isBuyer = (\<lambda>_. False), isAuditor = (\<lambda>_. False),
      certificationHashUsed = (\<lambda>_. False), tokenCertifications = (\<lambda>_. empty_certification),
      isRetired = (\<lambda>_. False), retiredBy = (\<lambda>_. 0), retiredAt = (\<lambda>_. 0),
      tokenMetadata = (\<lambda>_. []), events = []\<rparr>"

definition constructor :: "address \<Rightarrow> address \<Rightarrow> error + state" where
  "constructor deployer mainAdmin =
     (if mainAdmin = 0 then Inl (Require ''Main admin cannot be zero address'')
      else Inr (internal_grantRole
                  (internal_grantRole initial_storage deployer DEFAULT_ADMIN_ROLE mainAdmin)
                  deployer MAIN_ADMIN_ROLE mainAdmin))"

subsection \<open>Certified minting\<close>

text \<open>The body of the minting loop, run \<open>n\<close> more times: mint the token numbered
  \<open>_nextTokenId\<close>, which calls the recipient's hook, then store the certification
  record under the \<open>_nextTokenId\<close> then current and increment it.\<close>

fun mintLoop ::
  "reentry \<Rightarrow> env \<Rightarrow> address \<Rightarrow> address \<Rightarrow> address \<Rightarrow> nat \<Rightarrow> bytes32 \<Rightarrow> nat \<Rightarrow> state \<Rightarrow>
   error + state" where
  "mintLoop R E sender to cert now h 0 s = Inr s"
| "mintLoop R E sender to cert now h (Suc n) s =
     (case internal_safeMint R E s now sender to (nextTokenId s) of
        Inl e \<Rightarrow> Inl e
      | Inr s1 \<Rightarrow>
          let s2 = s1\<lparr>tokenCertifications := (tokenCertifications s1)(nextTokenId s1 :=
                        \<lparr>producer = to, certifier = cert, timestamp = now, metadata = [],
                         certificationHash = h\<rparr>)\<rparr>
          in if nextTokenId s2 + 1 > UINT256_MAX then Inl Panic
             else mintLoop R E sender to cert now h n (s2\<lparr>nextTokenId := nextTokenId s2 + 1\<rparr>))"

definition mintWithCertification ::
  "reentry \<Rightarrow> env \<Rightarrow> state \<Rightarrow> address \<Rightarrow> nat \<Rightarrow> address \<Rightarrow> nat \<Rightarrow> bytes32 \<Rightarrow> byte list \<Rightarrow>
   error + state" where
  "mintWithCertification R E s sender now to amount h certifierSignature =
     (if paused s then Inl EnforcedPause
      else if to = 0 then Inl (Require ''Cannot mint to zero address'')
      else if \<not> (amount > 0 \<and> amount \<le> 1000) then Inl (Require ''Invalid amount'')
      else if \<not> isProducer s to then Inl (Require ''Recipient must be registered producer'')
      else if certificationHashUsed s h then Inl (Require ''Certification hash already used'')
      else
        let messageHash = keccak256 E (encodePacked to amount h);
            ethSignedMessageHash = toEthSignedMessageHash E messageHash
        in case recover E ethSignedMessageHash certifierSignature of
             Inl e \<Rightarrow> Inl e
           | Inr cert \<Rightarrow>
               if \<not> hasRole s CITY_ADMIN_ROLE cert then Inl (Require ''Invalid certifier signature'')
               else
                 let s1 = s\<lparr>certificationHashUsed := (certificationHashUsed s)(h := True)\<rparr>;
                     fromId = nextTokenId s1
                 in if nextTokenId s1 + amount > UINT256_MAX then Inl Panic
                    else
                      let toId = nextTokenId s1 + amount - 1
                      in case mintLoop R E sender to cert now h amount s1 of
                           Inl e \<Rightarrow> Inl e
                         | Inr s2 \<Rightarrow>
                             Inr (s2\<lparr>events := events s2 @
                                       [CreditsIssued to amount fromId toId h]\<rparr>))"

subsection \<open>Appointment and registration\<close>

definition appointCountryAdmin :: "state \<Rightarrow> address \<Rightarrow> address \<Rightarrow> nat \<Rightarrow> error + state" where
  "appointCountryAdmin s sender admin countryId =
     (case checkRole s MAIN_ADMIN_ROLE sender of
        Inl e \<Rightarrow> Inl e
      | Inr _ \<Rightarrow>
          if admin = 0 then Inl (Require ''Admin cannot be zero address'')
          else if isCountryAdmin s admin then Inl (Require ''Already a country admin'')
          else
            let s1 = s\<lparr>isCountryAdmin := (isCountryAdmin s)(admin := True),
                       countryAdminCountryId := (countryAdminCountryId s)(admin := countryId)\<rparr>;
                s2 = internal_grantRole s1 sender COUNTRY_ADMIN_ROLE admin
            in Inr (s2\<lparr>events := events s2 @ [CountryAdminAppointed admin countryId sender]\<rparr>))"

definition appointStateAdmin :: "state \<Rightarrow> address \<Rightarrow> address \<Rightarrow> nat \<Rightarrow> error + state" where
  "appointStateAdmin s sender admin stateId =
     (case checkRole s COUNTRY_ADMIN_ROLE sender of
        Inl e \<Rightarrow> Inl e
      | Inr _ \<Rightarrow>
          if admin = 0 then Inl (Require ''Admin cannot be zero address'')
          else if isStateAdmin s admin then Inl (Require ''Already a state admin'')
          else
            let s1 = s\<lparr>isStateAdmin := (isStateAdmin s)(admin := True),
                       stateAdminStateId := (stateAdminStateId s)(admin := stateId)\<rparr>;
                s2 = internal_grantRole s1 sender STATE_ADMIN_ROLE admin
            in Inr (s2\<lparr>events := events s2 @ [StateAdminAppointed admin stateId sender]\<rparr>))"

definition appointCityAdmin :: "state \<Rightarrow> address \<Rightarrow> address \<Rightarrow> nat \<Rightarrow> error + state" where
  "appointCityAdmin s sender admin cityId =
     (case checkRole s STATE_ADMIN_ROLE sender of
        Inl e \<Rightarrow> Inl e
      | Inr _ \<Rightarrow>
          if admin = 0 then Inl (Require ''Admin cannot be zero address'')
          else if isCityAdmin s admin then Inl (Require ''Already a city admin'')
          else
            let s1 = s\<lparr>isCityAdmin := (isCityAdmin s)(admin := True),
                       cityAdminCityId := (cityAdminCityId s)(admin := cityId)\<rparr>;
                s2 = internal_grantRole s1 sender CITY_ADMIN_ROLE admin
            in Inr (s2\<lparr>events := events s2 @ [CityAdminAppointed admin cityId sender]\<rparr>))"

definition registerProducer :: "state \<Rightarrow> address \<Rightarrow> address \<Rightarrow> error + state" where
  "registerProducer s sender producer' =
     (case checkRole s CITY_ADMIN_ROLE sender of
        Inl e \<Rightarrow> Inl e
      | Inr _ \<Rightarrow>
          if producer' = 0 then Inl (Require ''Producer cannot be zero address'')
          else if isProducer s producer' then Inl (Require ''Already a producer'')
          else
            let s1 = s\<lparr>isProducer := (isProducer s)(producer' := True)\<rparr>;
                s2 = internal_grantRole s1 sender PRODUCER_ROLE producer'
            in Inr (s2\<lparr>events := events s2 @ [ProducerRegistered producer' sender]\<rparr>))"

definition registerBuyer :: "state \<Rightarrow> address \<Rightarrow> error + state" where
  "registerBuyer s sender =
     (if isBuyer s sender then Inl (Require ''Already a buyer'')
      else
        let s1 = s\<lparr>isBuyer := (isBuyer s)(sender := True)\<rparr>;
            s2 = internal_grantRole s1 sender BUYER_ROLE sender
        in Inr (s2\<lparr>events := events s2 @ [BuyerRegistered sender]\<rparr>))"

definition registerAuditor :: "state \<Rightarrow> address \<Rightarrow> address \<Rightarrow> error + state" where
  "registerAuditor s sender auditor =
     (case checkRole s MAIN_ADMIN_ROLE sender of
        Inl e \<Rightarrow> Inl e
      | Inr _ \<Rightarrow>
          if auditor = 0 then Inl (Require ''Auditor cannot be zero address'')
          else if isAuditor s auditor then Inl (Require ''Already an auditor'')
          else
            let s1 = s\<lparr>isAuditor := (isAuditor s)(auditor := True)\<rparr>;
                s2 = internal_grantRole s1 sender AUDITOR_ROLE auditor
            in Inr (s2\<lparr>events := events s2 @ [AuditorRegistered auditor sender]\<rparr>))"

subsection \<open>Retirement and pausing\<close>

definition retire :: "state \<Rightarrow> address \<Rightarrow> nat \<Rightarrow> nat \<Rightarrow> error + state" where
  "retire s sender now tokenId =
     (if internal_ownerOf s tokenId \<noteq> sender then Inl (Require ''Only owner can retire credit'')
      else if isRetired s tokenId then Inl (Require ''Credit already retired'')
      else Inr (s\<lparr>isRetired := (isRetired s)(tokenId := True),
                  retiredBy := (retiredBy s)(tokenId := sender),
                  retiredAt := (retiredAt s)(tokenId := now),
                  events := events s @ [CreditRetired sender tokenId now]\<rparr>))"

definition pause :: "state \<Rightarrow> address \<Rightarrow> error + state" where
  "pause s sender =
     (case checkRole s MAIN_ADMIN_ROLE sender of
        Inl e \<Rightarrow> Inl e
      | Inr _ \<Rightarrow> internal_pause s sender)"

definition unpause :: "state \<Rightarrow> address \<Rightarrow> error + state" where
  "unpause s sender =
     (case checkRole s MAIN_ADMIN_ROLE sender of
        Inl e \<Rightarrow> Inl e
      | Inr _ \<Rightarrow> internal_unpause s sender)"

subsection \<open>Transactions and reachable states\<close>

text \<open>\<open>exec_with R E s sender now c\<close> runs the call \<open>c\<close> sent by \<open>sender\<close> in a block
  with timestamp \<open>now\<close>, the calls of token receivers being carried out by \<open>R\<close>. A call
  either commits its new state or reverts, leaving the state it started from.\<close>

fun exec_with :: "reentry \<Rightarrow> env \<Rightarrow> state \<Rightarrow> address \<Rightarrow> nat \<Rightarrow> call \<Rightarrow> error + state" where
  "exec_with R E s sender now (MintWithCertification to amount h sig) =
     mintWithCertification R E s sender now to amount h sig"
| "exec_with R E s sender now (AppointCountryAdmin admin countryId) =
     appointCountryAdmin s sender admin countryId"
| "exec_with R E s sender now (AppointStateAdmin admin stateId) =
     appointStateAdmin s sender admin stateId"
| "exec_with R E s sender now (AppointCityAdmin admin cityId) =
     appointCityAdmin s sender admin cityId"
| "exec_with R E s sender now (RegisterProducer producer') = registerProducer s sender producer'"
| "exec_with R E s sender now RegisterBuyer = registerBuyer s sender"
| "exec_with R E s sender now (RegisterAuditor auditor) = registerAuditor s sender auditor"
| "exec_with R E s sender now (Retire tokenId) = retire s sender now tokenId"
| "exec_with R E s sender now Pause = pause s sender"
| "exec_with R E s sender now Unpause = unpause s sender"
| "exec_with R E s sender now (TransferFrom from to tokenId) =
     transferFrom s sender from to tokenId"
| "exec_with R E s sender now (SafeTransferFrom from to tokenId) =
     safeTransferFrom R E s now sender from to tokenId"
| "exec_with R E s sender now (Approve to tokenId) = approve s sender to tokenId"
| "exec_with R E s sender now (SetApprovalForAll operator approved) =
     setApprovalForAll s sender operator approved"
| "exec_with R E s sender now (GrantRole r account) = grantRole s sender r account"
| "exec_with R E s sender now (RevokeRole r account) = revokeRole s sender r account"
| "exec_with R E s sender now (RenounceRole r account) = renounceRole s sender r account"

text \<open>The calls of a receiver, one after the other in the block of the transaction that
  called it. A call that reverts is skipped; no call comes from the zero address.\<close>

fun run_calls ::
  "(state \<Rightarrow> address \<Rightarrow> nat \<Rightarrow> call \<Rightarrow> error + state) \<Rightarrow> state \<Rightarrow> nat \<Rightarrow> rcall list \<Rightarrow> state" where
  "run_calls ex s now [] = s"
| "run_calls ex s now ((sender, c) # calls) =
     (if sender = 0 then run_calls ex s now calls
      else case ex s sender now c of
             Inl e \<Rightarrow> run_calls ex s now calls
           | Inr s1 \<Rightarrow> run_calls ex s1 now calls)"

text \<open>With \<open>d\<close> levels of call depth left for receivers: none can be called at depth 0, and
  one called at depth \<open>d + 1\<close> has its calls run at depth \<open>d\<close>, where they may reach
  receivers again.\<close>

primrec reentry_at :: "nat \<Rightarrow> env \<Rightarrow> reentry" where
  "reentry_at 0 E = None"
| "reentry_at (Suc d) E = Some (run_calls (exec_with (reentry_at d E) E))"

definition exec :: "nat \<Rightarrow> env \<Rightarrow> state \<Rightarrow> address \<Rightarrow> nat \<Rightarrow> call \<Rightarrow> error + state" where
  "exec d E s sender now c = exec_with (reentry_at d E) E s sender now c"

text \<open>A transaction is a sender, a block timestamp and a call. \<open>run\<close> applies a list of
  transactions in order and skips those that revert, as the chain does.\<close>

type_synonym tx = "address \<times> nat \<times> call"

fun run :: "nat \<Rightarrow> env \<Rightarrow> state \<Rightarrow> tx list \<Rightarrow> state" where
  "run d E s [] = s"
| "run d E s ((sender, now, c) # txs) =
     (case exec d E s sender now c of
        Inl e \<Rightarrow> run d E s txs
      | Inr s1 \<Rightarrow> run d E s1 txs)"

text \<open>The states the deployed contract can be in. The sender of a transaction is an
  account that signed it or a contract that exists, never the zero address; the call
  depth left to receivers may differ from one transaction to the next.\<close>

definition valid_txs :: "tx list \<Rightarrow> bool" where
  "valid_txs txs = list_all (\<lambda>(sender, now, c). sender \<noteq> 0) txs"

inductive reachable :: "env \<Rightarrow> state \<Rightarrow> bool" for E :: env where
  deployed: "constructor deployer mainAdmin = Inr s \<Longrightarrow> reachable E s"
| committed:
    "reachable E s \<Longrightarrow> sender \<noteq> 0 \<Longrightarrow> exec d E s sender now c = Inr s1 \<Longrightarrow> reachable E s1"

section \<open>The backend's blockchain service\<close>

text \<open>The standard ABI encoding of \<open>(address, uint256, bytes32)\<close> that
  \<open>AbiCoder.defaultAbiCoder().encode\<close> produces: three 32-byte words, the address
  left-padded with zeros.\<close>

definition abi_encode :: "address \<Rightarrow> nat \<Rightarrow> bytes32 \<Rightarrow> byte list" where
  "abi_encode a amount h = be_bytes 32 (unat a) @ be_bytes 32 amount @ be_bytes 32 (unat h)"

fun decimal :: "nat \<Rightarrow> string" where
  "decimal n =
     (if n < 10 then [char_of (48 + n)] else decimal (n div 10) @ [char_of (48 + n mod 10)])"

text \<open>\<open>ethers.hashMessage\<close> on a byte array: the EIP-191 prefix, the length of the
  message in decimal, the message.\<close>

definition hashMessage :: "env \<Rightarrow> byte list \<Rightarrow> bytes32" where
  "hashMessage E message =
     keccak256 E ([0x19] @ ascii ''Ethereum Signed Message:'' @ [0x0A]
                  @ ascii (decimal (length message)) @ message)"

text \<open>The library and the node the service talks to: \<open>recoverAddress\<close> is
  \<open>ethers.recoverAddress\<close>, which throws (\<open>None\<close>) on a signature it cannot parse or
  recover from; a read of the contract answers from the committed state, or throws when
  the node cannot be reached, which is the node \<open>None\<close>.\<close>

record ethers =
  recoverAddress :: "bytes32 \<Rightarrow> byte list \<Rightarrow> address option"

text \<open>A JavaScript number is a double. \<open>amount\<close> arrives as a number, and the encoder
  refuses a number that is not a safe integer: one above \<open>2 ^ 53 - 1\<close> here, amounts
  being natural numbers.\<close>

definition MAX_SAFE_INTEGER :: nat where
  "MAX_SAFE_INTEGER = 2 ^ 53 - 1"

definition encode_request :: "address \<Rightarrow> nat \<Rightarrow> bytes32 \<Rightarrow> byte list option" where
  "encode_request a amount h =
     (if amount \<le> MAX_SAFE_INTEGER then Some (abi_encode a amount h) else None)"

text \<open>\<open>BlockchainService.verifyCertificationSignature\<close>. The result is the pair
  \<open>(isValid, certifier)\<close>; the \<open>catch\<close> branch answers \<open>(False, ZeroAddress)\<close>.\<close>

definition verifyCertificationSignature ::
  "env \<Rightarrow> ethers \<Rightarrow> state option \<Rightarrow> address \<Rightarrow> nat \<Rightarrow> bytes32 \<Rightarrow> byte list \<Rightarrow> bool \<times> address" where
  "verifyCertificationSignature E L node producerAddress amount h signature =
     (case encode_request producerAddress amount h of
        None \<Rightarrow> (False, 0)
      | Some encoded \<Rightarrow>
          let messageHash = keccak256 E encoded;
              ethSignedMessageHash = hashMessage E (be_bytes 32 (unat messageHash))
          in case recoverAddress L ethSignedMessageHash signature of
               None \<Rightarrow> (False, 0)
             | Some cert \<Rightarrow>
                 (case node of
                    None \<Rightarrow> (False, 0)
                  | Some s \<Rightarrow> (hasRole s CITY_ADMIN_ROLE cert, cert)))"





section \<open>Notions used in the statements and proofs\<close>

text \<open>A recipient takes tokens quietly when the check of its \<open>onERC721Received\<close> always
  passes and leaves the state as it is: an account without code, or a contract whose hook
  returns the selector and makes no call.\<close>

definition accepts_quietly :: "reentry \<Rightarrow> env \<Rightarrow> address \<Rightarrow> bool" where
  "accepts_quietly R E to \<longleftrightarrow>
     (\<forall>s now operator from tokenId.
        checkOnERC721Received R E s now operator from to tokenId = Inr s)"

text \<open>One pass through the body of the minting loop, the condition under which it goes
  through for a quiet recipient, and the state it then leaves.\<close>

definition mint_ready :: "reentry \<Rightarrow> env \<Rightarrow> state \<Rightarrow> address \<Rightarrow> bool" where
  "mint_ready R E s to \<longleftrightarrow>
     to \<noteq> 0 \<and> \<not> paused s \<and> owners s (nextTokenId s) = 0 \<and> accepts_quietly R E to \<and>
     (balances s to + 1) mod 2 ^ 256 \<noteq> 0 \<and> nextTokenId s < UINT256_MAX"

definition mint_token :: "address \<Rightarrow> state \<Rightarrow> state" where
  "mint_token to s =
     s\<lparr>owners := (owners s)(nextTokenId s := to),
       balances := (balances s)(to := (balances s to + 1) mod 2 ^ 256),
       ownedTokens := (ownedTokens s)(to :=
          (ownedTokens s to)((balances s to + 1) mod 2 ^ 256 - 1 := nextTokenId s)),
       ownedTokensIndex := (ownedTokensIndex s)(nextTokenId s := (balances s to + 1) mod 2 ^ 256 - 1),
       allTokens := allTokens s @ [nextTokenId s],
       allTokensIndex := (allTokensIndex s)(nextTokenId s := length (allTokens s)),
       events := events s @ [Transfer 0 to (nextTokenId s)]\<rparr>"

definition mint_one :: "address \<Rightarrow> address \<Rightarrow> nat \<Rightarrow> bytes32 \<Rightarrow> state \<Rightarrow> state" where
  "mint_one to cert now h s =
     s\<lparr>owners := (owners s)(nextTokenId s := to),
       balances := (balances s)(to := (balances s to + 1) mod 2 ^ 256),
       ownedTokens := (ownedTokens s)(to :=
          (ownedTokens s to)((balances s to + 1) mod 2 ^ 256 - 1 := nextTokenId s)),
       ownedTokensIndex := (ownedTokensIndex s)(nextTokenId s := (balances s to + 1) mod 2 ^ 256 - 1),
       allTokens := allTokens s @ [nextTokenId s],
       allTokensIndex := (allTokensIndex s)(nextTokenId s := length (allTokens s)),
       nextTokenId := nextTokenId s + 1,
       tokenCertifications := (tokenCertifications s)(nextTokenId s :=
          \<lparr>producer = to, certifier = cert, timestamp = now, metadata = [],
           certificationHash = h\<rparr>),
       events := events s @ [Transfer 0 to (nextTokenId s)]\<rparr>"

definition mintStep ::
  "reentry \<Rightarrow> env \<Rightarrow> address \<Rightarrow> address \<Rightarrow> address \<Rightarrow> nat \<Rightarrow> bytes32 \<Rightarrow> state \<Rightarrow> error + state" where
  "mintStep R E sender to cert now h s =
     (case internal_safeMint R E s now sender to (nextTokenId s) of
        Inl e \<Rightarrow> Inl e
      | Inr s1 \<Rightarrow>
          let s2 = s1\<lparr>tokenCertifications := (tokenCertifications s1)(nextTokenId s1 :=
                        \<lparr>producer = to, certifier = cert, timestamp = now, metadata = [],
                         certificationHash = h\<rparr>)\<rparr>
          in if nextTokenId s2 + 1 > UINT256_MAX then Inl Panic
             else Inr (s2\<lparr>nextTokenId := nextTokenId s2 + 1\<rparr>))"

text \<open>What holds of the token store in every reachable state: the next id is one past
  the number of tokens, owned ids lie below it, a token nobody owns has no approval, the
  zero address has no operators, and a balance counts the ids its account owns.\<close>

definition ledger_inv :: "state \<Rightarrow> bool" where
  "ledger_inv s \<longleftrightarrow>
     nextTokenId s = length (allTokens s) + 1 \<and>
     nextTokenId s \<le> UINT256_MAX \<and>
     (\<forall>id. owners s id \<noteq> 0 \<longrightarrow> 0 < id \<and> id < nextTokenId s) \<and>
     (\<forall>id. owners s id = 0 \<longrightarrow> tokenApprovals s id = 0) \<and>
     (\<forall>a. \<not> operatorApprovals s 0 a) \<and>
     (\<forall>a. a \<noteq> 0 \<longrightarrow> balances s a = card {id. owners s id = a})"

text \<open>While a receiver runs inside the minting loop, the token numbered \<open>_nextTokenId\<close>
  exists already and the counter has not moved yet. \<open>store_inv\<close> is what holds of the
  token store at every moment a receiver can be called or can call, inside the loop or
  not.\<close>

definition minting :: "state \<Rightarrow> bool" where
  "minting s \<longleftrightarrow> nextTokenId s = length (allTokens s)"

definition store_inv :: "state \<Rightarrow> bool" where
  "store_inv s \<longleftrightarrow>
     (nextTokenId s = length (allTokens s) + 1 \<or>
      nextTokenId s = length (allTokens s) \<and> owners s (nextTokenId s) \<noteq> 0) \<and>
     length (allTokens s) < UINT256_MAX \<and>
     (\<forall>id. owners s id \<noteq> 0 \<longrightarrow> 0 < id \<and> id \<le> length (allTokens s)) \<and>
     (\<forall>id. owners s id = 0 \<longrightarrow> tokenApprovals s id = 0) \<and>
     (\<forall>a. \<not> operatorApprovals s 0 a) \<and>
     (\<forall>a. a \<noteq> 0 \<longrightarrow> balances s a = card {id. owners s id = a})"

text \<open>What a sequence of calls made from outside can do to the token store: it keeps
  \<open>store_inv\<close> and only appends to the enumeration; made inside the minting loop, it
  leaves the loop's counter, the enumeration and the certification records alone; made
  outside, it ends outside.\<close>

definition store_kept :: "state \<Rightarrow> state \<Rightarrow> bool" where
  "store_kept s s1 \<longleftrightarrow>
     (store_inv s \<longrightarrow>
        store_inv s1 \<and>
        take (length (allTokens s)) (allTokens s1) = allTokens s \<and>
        (minting s \<longrightarrow>
           nextTokenId s1 = nextTokenId s \<and> allTokens s1 = allTokens s \<and>
           tokenCertifications s1 = tokenCertifications s) \<and>
        (\<not> minting s \<longrightarrow> \<not> minting s1))"

text \<open>A call that stays away from the enumeration, the counter and the records.\<close>

definition store_same :: "state \<Rightarrow> state \<Rightarrow> bool" where
  "store_same s s1 \<longleftrightarrow>
     (store_inv s \<longrightarrow>
        store_inv s1 \<and> allTokens s1 = allTokens s \<and> nextTokenId s1 = nextTokenId s \<and>
        tokenCertifications s1 = tokenCertifications s)"

text \<open>\<open>R\<close> keeps a relation between states when the calls of a receiver, as \<open>R\<close> carries
  them out, take a state to one related to it.\<close>

definition hooks_keep :: "(state \<Rightarrow> state \<Rightarrow> bool) \<Rightarrow> reentry \<Rightarrow> bool" where
  "hooks_keep P R \<longleftrightarrow> (\<forall>f s now calls. R = Some f \<longrightarrow> P s (f s now calls))"

text \<open>The calls that reach no receiver.\<close>

fun plain_call :: "call \<Rightarrow> bool" where
  "plain_call (MintWithCertification to amount h sig) = False"
| "plain_call (SafeTransferFrom from to tokenId) = False"
| "plain_call c = True"

text \<open>The steps a call is made of, once the calls of the receivers are taken apart as
  well: a call that reaches no receiver, a token movement, the creation of a token, and
  the writes of \<open>mintWithCertification\<close>.\<close>

inductive plain_step :: "state \<Rightarrow> state \<Rightarrow> bool" where
  direct: "plain_call c \<Longrightarrow> exec_with None E s sender now c = Inr s1 \<Longrightarrow> plain_step s s1"
| moved: "transferFrom s sender from to tokenId = Inr s1 \<Longrightarrow> plain_step s s1"
| minted: "internal_mint s to tokenId = Inr s1 \<Longrightarrow> plain_step s s1"
| marked: "plain_step s (s\<lparr>certificationHashUsed := (certificationHashUsed s)(h := True)\<rparr>)"
| recorded: "plain_step s (s\<lparr>tokenCertifications := (tokenCertifications s)(tokenId := c)\<rparr>)"
| counted: "plain_step s (s\<lparr>nextTokenId := nextTokenId s + 1\<rparr>)"
| logged: "plain_step s (s\<lparr>events := events s @ [e]\<rparr>)"

text \<open>The appointment flags and the used certification hashes only grow from \<open>s\<close> to
  \<open>s1\<close>, and the log is only appended to.\<close>

definition grows :: "state \<Rightarrow> state \<Rightarrow> bool" where
  "grows s s1 \<longleftrightarrow>
     (\<forall>a. isCountryAdmin s a \<longrightarrow> isCountryAdmin s1 a) \<and>
     (\<forall>a. isStateAdmin s a \<longrightarrow> isStateAdmin s1 a) \<and>
     (\<forall>a. isCityAdmin s a \<longrightarrow> isCityAdmin s1 a) \<and>
     (\<forall>h. certificationHashUsed s h \<longrightarrow> certificationHashUsed s1 h) \<and>
     (\<exists>evs. events s1 = events s @ evs)"

text \<open>A retired token that has an owner is the same in \<open>s\<close> and \<open>s1\<close>.\<close>

definition frozen :: "nat \<Rightarrow> state \<Rightarrow> state \<Rightarrow> bool" where
  "frozen t s s1 \<longleftrightarrow>
     (isRetired s t \<and> owners s t \<noteq> 0 \<longrightarrow>
        isRetired s1 t \<and> owners s1 t = owners s t \<and> retiredBy s1 t = retiredBy s t \<and>
        retiredAt s1 t = retiredAt s t)"

text \<open>The platform in which every receiver reverts when it is called in a state where
  the certification hash \<open>h\<close> is not marked used.\<close>

definition after_marking :: "bytes32 \<Rightarrow> env \<Rightarrow> env" where
  "after_marking h E =
     E\<lparr>code := (\<lambda>a. case code E a of
                      None \<Rightarrow> None
                    | Some hook \<Rightarrow>
                        Some (\<lambda>operator from tokenId s.
                          if certificationHashUsed s h then hook operator from tokenId s
                          else ([], Reverted [])))\<rparr>"

text \<open>Two ways of carrying out the calls of receivers agree from every state in which
  the certification hash \<open>h\<close> is marked used.\<close>

definition agree_when_marked :: "bytes32 \<Rightarrow> reentry \<Rightarrow> reentry \<Rightarrow> bool" where
  "agree_when_marked h R R' \<longleftrightarrow>
     (R = None \<longleftrightarrow> R' = None) \<and>
     (\<forall>f f' s now calls.
        R = Some f \<and> R' = Some f' \<and> certificationHashUsed s h \<longrightarrow>
        f s now calls = f' s now calls)"

text \<open>The digest the contract recovers the certifier from.\<close>

definition certification_digest :: "env \<Rightarrow> address \<Rightarrow> nat \<Rightarrow> bytes32 \<Rightarrow> bytes32" where
  "certification_digest E to amount h =
     toEthSignedMessageHash E (keccak256 E (encodePacked to amount h))"

text \<open>The digest the backend recovers the certifier from.\<close>

definition backend_digest :: "env \<Rightarrow> address \<Rightarrow> nat \<Rightarrow> bytes32 \<Rightarrow> bytes32" where
  "backend_digest E producerAddress amount h =
     hashMessage E (be_bytes 32 (unat (keccak256 E (abi_encode producerAddress amount h))))"

text \<open>An operation is independent of the pause flag when it gives the same outcome
  whatever the flag is, and leaves the flag as it found it.\<close>

definition pause_independent :: "(state \<Rightarrow> error + state) \<Rightarrow> bool" where
  "pause_independent f \<longleftrightarrow>
     (\<forall>s b. f (s\<lparr>paused := b\<rparr>) = map_sum id (\<lambda>s1. s1\<lparr>paused := b\<rparr>) (f s))"

section \<open>Example ledgers\<close>

text \<open>A platform on which every signature of the right shape recovers to account 5
  and no account has code.\<close>

definition example_env :: env where
  "example_env =
     \<lparr>keccak256 = (\<lambda>bs. 0), ecrecover = (\<lambda>h v r s. 5), code = (\<lambda>a. None)\<rparr>"

text \<open>Account 9 deploys the contract with account 1 as main admin.\<close>

definition deployed_ledger :: state where
  "deployed_ledger =
     internal_grantRole (internal_grantRole initial_storage 9 DEFAULT_ADMIN_ROLE 1)
       9 MAIN_ADMIN_ROLE 1"

text \<open>The main admin appoints a country admin 2, who appoints a state admin 3, who appoints
  a city admin 5, who registers the producer 7. Then two credits are minted for the
  producer under the certification hash \<open>0xAA\<close>; from there, either two more under
  \<open>0xBB\<close>, or the producer retires credit 1.\<close>

definition chain_ledger :: state where
  "chain_ledger =
     run 0 example_env deployed_ledger
       [(1, 10, AppointCountryAdmin 2 1), (2, 11, AppointStateAdmin 3 9),
        (3, 12, AppointCityAdmin 5 4), (5, 13, RegisterProducer 7)]"

definition example_signature :: "byte list" where
  "example_signature = replicate 65 0"

definition minted_ledger :: state where
  "minted_ledger =
     run 0 example_env chain_ledger [(8, 20, MintWithCertification 7 2 0xAA example_signature)]"


definition retired_ledger :: state where
  "retired_ledger = run 0 example_env minted_ledger [(7, 30, Retire 1)]"

text \<open>The main admin pauses the ledger, after the mint and after the retirement.\<close>

definition paused_ledger :: state where
  "paused_ledger = run 0 example_env minted_ledger [(1, 40, Pause)]"

definition retired_paused_ledger :: state where
  "retired_paused_ledger = run 0 example_env retired_ledger [(1, 40, Pause)]"

text \<open>The main admin appoints accounts 2 and 3 as country admins; country admin 2 appoints
  account 3 as state admin.\<close>

definition two_level_ledger :: state where
  "two_level_ledger =
     run 0 example_env deployed_ledger
       [(1, 10, AppointCountryAdmin 2 1), (1, 11, AppointCountryAdmin 3 2),
        (2, 12, AppointStateAdmin 3 9)]"

text \<open>A platform on which every signature of the right shape recovers to account 6, which
  holds no role.\<close>

definition forger_env :: env where
  "forger_env =
     \<lparr>keccak256 = (\<lambda>bs. 0), ecrecover = (\<lambda>h v r s. 6), code = (\<lambda>a. None)\<rparr>"

text \<open>A platform on which the producer 7 is a contract: whenever it receives a token, it
  passes the token on to account 6 and returns the selector.\<close>

definition relay :: receiver where
  "relay operator from tokenId s = ([(7, TransferFrom 7 6 tokenId)], Returned True)"

definition relay_env :: env where
  "relay_env =
     \<lparr>keccak256 = (\<lambda>bs. 0), ecrecover = (\<lambda>h v r s. 5),
      code = (\<lambda>a. if a = 7 then Some relay else None)\<rparr>"

definition relayed_ledger :: state where
  "relayed_ledger =
     run 1 relay_env chain_ledger [(8, 20, MintWithCertification 7 1 0xAA example_signature)]"


text \<open>A library that cannot parse the empty signature, and recovers account 5 from any
  other.\<close>

definition example_ethers :: ethers where
  "example_ethers = \<lparr>recoverAddress = (\<lambda>d sig. if sig = [] then None else Some 5)\<rparr>"

section \<open>Verified properties\<close>

subsection \<open>The minting loop and token movement\<close>

lemma mintLoop_Suc:
  "mintLoop R E sender to cert now h (Suc n) s =
     (case mintStep R E sender to cert now h s of
        Inl e \<Rightarrow> Inl e
      | Inr s1 \<Rightarrow> mintLoop R E sender to cert now h n s1)"
  by (simp add: mintStep_def Let_def split: sum.splits)

declare mintLoop.simps(2) [simp del]

lemmas update_defs = internal_mint_def internal_update_def
  Enumerable_update_def ERC721_update_def internal_ownerOf_def addTokenToAllTokensEnumeration_def
  addTokenToOwnerEnumeration_def removeTokenFromOwnerEnumeration_def
  removeTokenFromAllTokensEnumeration_def balanceOf_def checkAuthorized_def

lemma internal_mint_ready:
  "to \<noteq> 0 \<Longrightarrow> \<not> paused s \<Longrightarrow> owners s (nextTokenId s) = 0 \<Longrightarrow>
   (balances s to + 1) mod 2 ^ 256 \<noteq> 0 \<Longrightarrow>
   internal_mint s to (nextTokenId s) = Inr (mint_token to s)"
  by (simp add: mint_token_def update_defs Let_def)

lemma internal_mint_Inr:
  "internal_mint s to t = Inr s1 \<Longrightarrow>
   to \<noteq> 0 \<and> \<not> paused s \<and> owners s t = 0 \<and> (balances s to + 1) mod 2 ^ 256 \<noteq> 0"
  by (auto simp: update_defs Let_def split: if_splits sum.splits prod.splits)

lemma quiet_check:
  "accepts_quietly R E to \<Longrightarrow> checkOnERC721Received R E s now operator from to t = Inr s"
  by (simp add: accepts_quietly_def)

lemma no_code_quiet: "code E to = None \<Longrightarrow> accepts_quietly R E to"
  by (simp add: accepts_quietly_def checkOnERC721Received_def)

lemma check_kept:
  assumes "hooks_keep P R" "\<And>s. P s s"
    and "checkOnERC721Received R E s now operator from to t = Inr s1"
  shows "P s s1"
  using assms
  by (auto simp: checkOnERC721Received_def hooks_keep_def
      split: option.splits prod.splits hook_answer.splits if_splits)

lemma mint_one_token:
  "mint_one to cert now h s =
     (mint_token to s)\<lparr>tokenCertifications := (tokenCertifications s)(nextTokenId s :=
          \<lparr>producer = to, certifier = cert, timestamp = now, metadata = [],
           certificationHash = h\<rparr>), nextTokenId := nextTokenId s + 1\<rparr>"
  by (simp add: mint_one_def mint_token_def)

lemma mintStep_ready:
  assumes "mint_ready R E s to"
  shows "mintStep R E sender to cert now h s = Inr (mint_one to cert now h s)"
proof -
  have m: "internal_mint s to (nextTokenId s) = Inr (mint_token to s)"
    using assms by (intro internal_mint_ready) (simp_all add: mint_ready_def)
  have q: "accepts_quietly R E to" and room: "nextTokenId s < UINT256_MAX"
    using assms by (simp_all add: mint_ready_def)
  have "nextTokenId (mint_token to s) = nextTokenId s"
    "tokenCertifications (mint_token to s) = tokenCertifications s"
    by (simp_all add: mint_token_def)
  then show ?thesis
    using room
    by (simp add: mintStep_def internal_safeMint_def m quiet_check [OF q] Let_def mint_one_token)
qed

lemma mintStep_Inr:
  assumes "accepts_quietly R E to" "mintStep R E sender to cert now h s = Inr s1"
  shows "mint_ready R E s to"
proof -
  from assms(2) obtain sa where m: "internal_mint s to (nextTokenId s) = Inr sa"
    by (auto simp: mintStep_def internal_safeMint_def split: sum.splits)
  note c = internal_mint_Inr [OF m]
  then have sa: "sa = mint_token to s"
    using m by (simp add: internal_mint_ready)
  have "nextTokenId s < UINT256_MAX"
    using assms(2) m
    by (simp add: mintStep_def internal_safeMint_def quiet_check [OF assms(1)] Let_def sa
        mint_token_def split: if_splits)
  then show ?thesis
    using c assms(1) by (simp add: mint_ready_def)
qed

lemma ledger_inv_store: "ledger_inv s \<longleftrightarrow> store_inv s \<and> \<not> minting s"
  by (auto simp: ledger_inv_def store_inv_def minting_def less_Suc_eq_le)

lemma owned_finite:
  assumes "store_inv s" "a \<noteq> 0"
  shows "finite {id. owners s id = a}" and "card {id. owners s id = a} \<le> length (allTokens s)"
proof -
  have sub: "{id. owners s id = a} \<subseteq> {1..length (allTokens s)}"
    using assms by (auto simp: store_inv_def Suc_le_eq)
  show "finite {id. owners s id = a}"
    by (rule finite_subset [OF sub]) simp
  have "card {id. owners s id = a} \<le> card {1..length (allTokens s)}"
    by (rule card_mono [OF _ sub]) simp
  then show "card {id. owners s id = a} \<le> length (allTokens s)"
    by simp
qed

lemma inv_mint_ready:
  assumes "ledger_inv s" "to \<noteq> 0" "\<not> paused s" "accepts_quietly R E to"
    "nextTokenId s < UINT256_MAX"
  shows "mint_ready R E s to"
proof -
  have st: "store_inv s"
    using assms(1) by (simp add: ledger_inv_store)
  have "owners s (nextTokenId s) = 0"
    using assms(1) by (auto simp: ledger_inv_def)
  moreover have "balances s to < nextTokenId s"
    using assms(1,2) owned_finite(2) [OF st assms(2)] by (simp add: ledger_inv_def)
  then have "balances s to + 1 < 2 ^ 256"
    using assms(5) by (simp add: UINT256_MAX_def)
  then have "(balances s to + 1) mod 2 ^ 256 \<noteq> 0"
    by simp
  ultimately show ?thesis
    using assms by (simp add: mint_ready_def)
qed

lemma mint_token_store:
  assumes inv: "ledger_inv s" and to: "to \<noteq> 0" and room: "nextTokenId s < UINT256_MAX"
  shows "store_inv (mint_token to s)" and "minting (mint_token to s)"
proof -
  let ?n = "nextTokenId s"
  let ?s = "mint_token to s"
  have st: "store_inv s"
    using inv by (simp add: ledger_inv_store)
  have fresh: "owners s ?n = 0"
    using inv by (auto simp: ledger_inv_def)
  have bal: "balances s to < ?n"
    using inv to owned_finite(2) [OF st to] by (simp add: ledger_inv_def)
  then have nowrap: "(balances s to + 1) mod 2 ^ 256 = balances s to + 1"
    using room by (simp add: UINT256_MAX_def)
  have owned: "{id. owners ?s id = a} = (if a = to then insert ?n {id. owners s id = a}
                                         else {id. owners s id = a})" if "a \<noteq> 0" for a
    using that fresh by (auto simp: mint_token_def)
  have cards: "balances ?s a = card {id. owners ?s id = a}" if "a \<noteq> 0" for a
  proof (cases "a = to")
    case True
    have "?n \<notin> {id. owners s id = to}"
      using fresh to by simp
    then have "card (insert ?n {id. owners s id = to}) = Suc (card {id. owners s id = to})"
      using owned_finite(1) [OF st to] by simp
    then show ?thesis
      using True inv to owned [OF to] nowrap by (simp add: mint_token_def ledger_inv_def)
  next
    case False
    then show ?thesis
      using inv that owned [OF that] by (simp add: mint_token_def ledger_inv_def)
  qed
  show "minting ?s"
    using inv by (simp add: minting_def mint_token_def ledger_inv_def)
  have "nextTokenId ?s = length (allTokens ?s) \<and> owners ?s (nextTokenId ?s) \<noteq> 0"
    using inv to by (simp add: mint_token_def ledger_inv_def)
  moreover have "length (allTokens ?s) < UINT256_MAX"
    using room inv by (simp add: mint_token_def ledger_inv_def)
  moreover have "\<forall>id. owners ?s id \<noteq> 0 \<longrightarrow> 0 < id \<and> id \<le> length (allTokens ?s)"
    using inv by (auto simp: mint_token_def ledger_inv_def less_Suc_eq_le)
  moreover have "\<forall>id. owners ?s id = 0 \<longrightarrow> tokenApprovals ?s id = 0"
    using inv to by (simp add: mint_token_def ledger_inv_def)
  moreover have "\<forall>a. \<not> operatorApprovals ?s 0 a"
    using inv by (simp add: mint_token_def ledger_inv_def)
  ultimately show "store_inv ?s"
    using cards unfolding store_inv_def by blast
qed

lemma store_kept_refl: "store_kept s s"
  by (simp add: store_kept_def)

lemma take_take_prefix:
  "take (length xs) ys = xs \<Longrightarrow> take (length ys) zs = ys \<Longrightarrow> take (length xs) zs = xs"
  by (metis append_eq_conv_conj append_assoc append_take_drop_id)

lemma store_kept_trans:
  assumes "store_kept s s1" "store_kept s1 s2"
  shows "store_kept s s2"
proof -
  have "store_inv s2 \<and> take (length (allTokens s)) (allTokens s2) = allTokens s \<and>
        (minting s \<longrightarrow>
           nextTokenId s2 = nextTokenId s \<and> allTokens s2 = allTokens s \<and>
           tokenCertifications s2 = tokenCertifications s) \<and>
        (\<not> minting s \<longrightarrow> \<not> minting s2)" if a: "store_inv s"
  proof -
    have 1: "store_inv s1" "take (length (allTokens s)) (allTokens s1) = allTokens s"
      "minting s \<longrightarrow> nextTokenId s1 = nextTokenId s \<and> allTokens s1 = allTokens s \<and>
           tokenCertifications s1 = tokenCertifications s" "\<not> minting s \<longrightarrow> \<not> minting s1"
      using assms(1) a unfolding store_kept_def by blast+
    have 2: "store_inv s2" "take (length (allTokens s1)) (allTokens s2) = allTokens s1"
      "minting s1 \<longrightarrow> nextTokenId s2 = nextTokenId s1 \<and> allTokens s2 = allTokens s1 \<and>
           tokenCertifications s2 = tokenCertifications s1" "\<not> minting s1 \<longrightarrow> \<not> minting s2"
      using assms(2) 1(1) unfolding store_kept_def by blast+
    have m: "minting s \<longrightarrow> minting s1"
      using 1(3) by (simp add: minting_def)
    show ?thesis
      using 1 2 m take_take_prefix [OF 1(2) 2(2)] by simp
  qed
  then show ?thesis
    unfolding store_kept_def by blast
qed

text \<open>One pass of the loop, whatever the recipient does when it is called.\<close>

lemma mintStep_store:
  assumes keep: "hooks_keep store_kept R" and inv: "ledger_inv s"
    and room: "nextTokenId s < UINT256_MAX"
    and step: "mintStep R E sender to cert now h s = Inr s1"
  shows "ledger_inv s1" and "nextTokenId s1 = nextTokenId s + 1"
    and "allTokens s1 = allTokens s @ [nextTokenId s]"
    and "tokenCertifications s1 = (tokenCertifications s)(nextTokenId s :=
          \<lparr>producer = to, certifier = cert, timestamp = now, metadata = [],
           certificationHash = h\<rparr>)"
    and "owners s (nextTokenId s) = 0"
proof -
  from step obtain sa sb where m: "internal_mint s to (nextTokenId s) = Inr sa"
    and c: "checkOnERC721Received R E sa now sender 0 to (nextTokenId s) = Inr sb"
    and s1: "s1 = sb\<lparr>tokenCertifications := (tokenCertifications sb)(nextTokenId sb :=
          \<lparr>producer = to, certifier = cert, timestamp = now, metadata = [],
           certificationHash = h\<rparr>), nextTokenId := nextTokenId sb + 1\<rparr>"
    by (auto simp: mintStep_def internal_safeMint_def Let_def split: sum.splits if_splits)
  note g = internal_mint_Inr [OF m]
  show "owners s (nextTokenId s) = 0"
    using g by simp
  have sa: "sa = mint_token to s"
    using m g by (simp add: internal_mint_ready)
  have a: "store_inv sa" "minting sa"
    using mint_token_store [OF inv _ room] g by (simp_all add: sa)
  have "store_kept sa sb"
    using keep store_kept_refl c by (rule check_kept)
  then have b: "store_inv sb" "nextTokenId sb = nextTokenId sa" "allTokens sb = allTokens sa"
    "tokenCertifications sb = tokenCertifications sa"
    using a by (simp_all add: store_kept_def)
  have fa: "nextTokenId sa = nextTokenId s" "allTokens sa = allTokens s @ [nextTokenId s]"
    "tokenCertifications sa = tokenCertifications s"
    by (simp_all add: sa mint_token_def)
  show "nextTokenId s1 = nextTokenId s + 1"
    by (simp add: s1 b fa)
  show "allTokens s1 = allTokens s @ [nextTokenId s]"
    by (simp add: s1 b fa)
  show "tokenCertifications s1 = (tokenCertifications s)(nextTokenId s :=
          \<lparr>producer = to, certifier = cert, timestamp = now, metadata = [],
           certificationHash = h\<rparr>)"
    by (simp add: s1 b fa)
  have "minting sb"
    using a(2) b fa by (simp add: minting_def)
  then show "ledger_inv s1"
    using b(1) by (auto simp: s1 ledger_inv_def store_inv_def minting_def less_Suc_eq_le)
qed

lemma mintLoop_store:
  assumes "hooks_keep store_kept R"
  shows "mintLoop R E sender to cert now h n s = Inr s1 \<Longrightarrow> ledger_inv s \<Longrightarrow>
     nextTokenId s + n \<le> UINT256_MAX \<Longrightarrow>
     ledger_inv s1 \<and> nextTokenId s1 = nextTokenId s + n \<and>
     allTokens s1 = allTokens s @ [nextTokenId s..<nextTokenId s + n] \<and>
     (\<forall>id. nextTokenId s \<le> id \<and> id < nextTokenId s + n \<longrightarrow> owners s id = 0) \<and>
     (\<forall>id. tokenCertifications s1 id =
        (if nextTokenId s \<le> id \<and> id < nextTokenId s + n
         then \<lparr>producer = to, certifier = cert, timestamp = now, metadata = [],
               certificationHash = h\<rparr>
         else tokenCertifications s id))"
proof (induction n arbitrary: s)
  case 0
  then show ?case by auto
next
  case (Suc n)
  from Suc.prems(1) obtain s' where step: "mintStep R E sender to cert now h s = Inr s'"
    and rest: "mintLoop R E sender to cert now h n s' = Inr s1"
    by (auto simp: mintLoop_Suc split: sum.splits)
  have room: "nextTokenId s < UINT256_MAX"
    using Suc.prems(3) by simp
  note st = mintStep_store [OF assms Suc.prems(2) room step]
  have "nextTokenId s' + n \<le> UINT256_MAX"
    using Suc.prems(3) st(2) by simp
  note IH = Suc.IH [OF rest st(1) this]
  have inv: "\<forall>id. owners s id \<noteq> 0 \<longrightarrow> id < nextTokenId s"
    using Suc.prems(2) by (auto simp: ledger_inv_def)
  have "ledger_inv s1" "nextTokenId s1 = nextTokenId s + Suc n"
    using IH st(2) by simp_all
  moreover have "allTokens s1 = allTokens s @ [nextTokenId s..<nextTokenId s + Suc n]"
    using IH st(2,3) by (simp add: upt_conv_Cons)
  moreover have "\<forall>id. nextTokenId s \<le> id \<and> id < nextTokenId s + Suc n \<longrightarrow> owners s id = 0"
    using inv by (metis not_le)
  moreover have "\<forall>id. tokenCertifications s1 id =
        (if nextTokenId s \<le> id \<and> id < nextTokenId s + Suc n
         then \<lparr>producer = to, certifier = cert, timestamp = now, metadata = [],
               certificationHash = h\<rparr>
         else tokenCertifications s id)"
    using IH st(2,4) by auto
  ultimately show ?case by blast
qed

text \<open>The loop for a recipient that takes the tokens quietly.\<close>

lemma mintLoop_succeeds:
  "ledger_inv s \<Longrightarrow> to \<noteq> 0 \<Longrightarrow> \<not> paused s \<Longrightarrow> accepts_quietly R E to \<Longrightarrow>
   nextTokenId s + n \<le> UINT256_MAX \<Longrightarrow> \<exists>s1. mintLoop R E sender to cert now h n s = Inr s1"
proof (induction n arbitrary: s)
  case 0
  then show ?case by simp
next
  case (Suc n)
  have ready: "mint_ready R E s to"
    using Suc.prems by (intro inv_mint_ready) simp_all
  let ?s = "mint_one to cert now h s"
  have step: "mintStep R E sender to cert now h s = Inr ?s"
    using ready by (rule mintStep_ready)
  have q: "store_inv (mint_token to s)"
    using Suc.prems by (intro mint_token_store(1)) simp_all
  have "ledger_inv ?s"
    using q Suc.prems(1,5)
    by (auto simp: mint_one_token mint_token_def ledger_inv_def store_inv_def less_Suc_eq_le)
  moreover have "\<not> paused ?s" and "nextTokenId ?s + n \<le> UINT256_MAX"
    using Suc.prems by (simp_all add: mint_one_def)
  ultimately have "\<exists>s1. mintLoop R E sender to cert now h n ?s = Inr s1"
    using Suc.prems(2,4) by (intro Suc.IH)
  then show ?case
    by (simp add: mintLoop_Suc step)
qed

lemma mintLoop_Inr:
  "accepts_quietly R E to \<Longrightarrow> mintLoop R E sender to cert now h n s = Inr s1 \<Longrightarrow>
     nextTokenId s1 = nextTokenId s + n \<and>
     (\<forall>id. owners s1 id = (if nextTokenId s \<le> id \<and> id < nextTokenId s + n then to
                            else owners s id)) \<and>
     (\<forall>id. nextTokenId s \<le> id \<and> id < nextTokenId s + n \<longrightarrow> owners s id = 0) \<and>
     (\<forall>id. tokenCertifications s1 id =
        (if nextTokenId s \<le> id \<and> id < nextTokenId s + n
         then \<lparr>producer = to, certifier = cert, timestamp = now, metadata = [],
               certificationHash = h\<rparr>
         else tokenCertifications s id)) \<and>
     allTokens s1 = allTokens s @ [nextTokenId s..<nextTokenId s + n] \<and>
     events s1 = events s @ map (Transfer 0 to) [nextTokenId s..<nextTokenId s + n]"
proof (induction n arbitrary: s)
  case 0
  then show ?case by auto
next
  case (Suc n)
  from Suc.prems obtain s' where step: "mintStep R E sender to cert now h s = Inr s'"
    and rest: "mintLoop R E sender to cert now h n s' = Inr s1"
    by (auto simp: mintLoop_Suc split: sum.splits)
  have ready: "mint_ready R E s to"
    using Suc.prems(1) step by (rule mintStep_Inr)
  then have s': "s' = mint_one to cert now h s"
    using step by (simp add: mintStep_ready)
  have fresh: "owners s (nextTokenId s) = 0"
    using ready by (simp add: mint_ready_def)
  note IH = Suc.IH [OF Suc.prems(1) rest]
  have next': "nextTokenId s' = Suc (nextTokenId s)"
    by (simp add: s' mint_one_def)
  have "nextTokenId s1 = nextTokenId s + Suc n"
    using IH next' by simp
  moreover have "\<forall>id. owners s1 id = (if nextTokenId s \<le> id \<and> id < nextTokenId s + Suc n then to
                            else owners s id)"
    using IH next' by (auto simp: s' mint_one_def)
  moreover have "\<forall>id. nextTokenId s \<le> id \<and> id < nextTokenId s + Suc n \<longrightarrow> owners s id = 0"
  proof (intro allI impI)
    fix id assume r: "nextTokenId s \<le> id \<and> id < nextTokenId s + Suc n"
    show "owners s id = 0"
    proof (cases "id = nextTokenId s")
      case True
      then show ?thesis using fresh by simp
    next
      case False
      then have "owners s' id = 0"
        using IH next' r by simp
      then show ?thesis
        using False by (simp add: s' mint_one_def)
    qed
  qed
  moreover have "\<forall>id. tokenCertifications s1 id =
        (if nextTokenId s \<le> id \<and> id < nextTokenId s + Suc n
         then \<lparr>producer = to, certifier = cert, timestamp = now, metadata = [],
               certificationHash = h\<rparr>
         else tokenCertifications s id)"
    using IH next' by (auto simp: s' mint_one_def)
  moreover have "allTokens s1 = allTokens s @ [nextTokenId s..<nextTokenId s + Suc n]"
    using IH next' by (simp add: s' mint_one_def upt_conv_Cons)
  moreover have "events s1 = events s @ map (Transfer 0 to) [nextTokenId s..<nextTokenId s + Suc n]"
    using IH next' by (simp add: s' mint_one_def upt_conv_Cons)
  ultimately show ?case by blast
qed

lemma mintLoop_frame:
  "accepts_quietly R E to \<Longrightarrow> mintLoop R E sender to cert now h n s = Inr s1 \<Longrightarrow>
     s1 = s\<lparr>owners := owners s1, balances := balances s1, ownedTokens := ownedTokens s1,
            ownedTokensIndex := ownedTokensIndex s1, allTokens := allTokens s1,
            allTokensIndex := allTokensIndex s1, nextTokenId := nextTokenId s1,
            tokenCertifications := tokenCertifications s1, events := events s1\<rparr>"
proof (induction n arbitrary: s)
  case 0
  then show ?case by simp
next
  case (Suc n)
  from Suc.prems obtain s' where step: "mintStep R E sender to cert now h s = Inr s'"
    and rest: "mintLoop R E sender to cert now h n s' = Inr s1"
    by (auto simp: mintLoop_Suc split: sum.splits)
  have "mint_ready R E s to"
    using Suc.prems(1) step by (rule mintStep_Inr)
  then have s': "s' = mint_one to cert now h s"
    using step by (simp add: mintStep_ready)
  show ?case
    by (subst Suc.IH [OF Suc.prems(1) rest]) (simp add: s' mint_one_def)
qed

lemma ERC721_update_Inr:
  assumes "ERC721_update s to t auth = Inr (prev, s1)"
  shows "prev = owners s t"
    and "auth \<noteq> 0 \<Longrightarrow> isAuthorized s prev auth t"
    and "owners s1 = (owners s)(t := to)"
    and "tokenApprovals s1 = (if prev \<noteq> 0 then (tokenApprovals s)(t := 0) else tokenApprovals s)"
    and "balances s1 =
           (let b = (if prev \<noteq> 0
                     then (balances s)(prev := (balances s prev + UINT256_MAX) mod 2 ^ 256)
                     else balances s)
            in if to \<noteq> 0 then b(to := (b to + 1) mod 2 ^ 256) else b)"
    and "s1 = s\<lparr>owners := owners s1, balances := balances s1,
                 tokenApprovals := tokenApprovals s1, events := events s1\<rparr>"
  using assms
  by (auto simp: ERC721_update_def internal_ownerOf_def checkAuthorized_def Let_def
      split: if_splits sum.splits)

lemma Enumerable_update_Inr:
  assumes "Enumerable_update s to t auth = Inr (prev, s1)"
  shows "prev = owners s t"
    and "auth \<noteq> 0 \<Longrightarrow> isAuthorized s prev auth t"
    and "owners s1 = (owners s)(t := to)"
    and "tokenApprovals s1 = (if prev \<noteq> 0 then (tokenApprovals s)(t := 0) else tokenApprovals s)"
    and "balances s1 =
           (let b = (if prev \<noteq> 0
                     then (balances s)(prev := (balances s prev + UINT256_MAX) mod 2 ^ 256)
                     else balances s)
            in if to \<noteq> 0 then b(to := (b to + 1) mod 2 ^ 256) else b)"
    and "prev \<noteq> 0 \<Longrightarrow> to \<noteq> 0 \<Longrightarrow> allTokens s1 = allTokens s"
    and "s1 = s\<lparr>owners := owners s1, balances := balances s1,
                 tokenApprovals := tokenApprovals s1, ownedTokens := ownedTokens s1,
                 ownedTokensIndex := ownedTokensIndex s1, allTokens := allTokens s1,
                 allTokensIndex := allTokensIndex s1, events := events s1\<rparr>"
proof -
  from assms obtain s0 where base: "ERC721_update s to t auth = Inr (prev, s0)"
    by (auto simp: Enumerable_update_def split: sum.splits prod.splits)
  note b = ERC721_update_Inr [OF base]
  have enum: "s1 = s0\<lparr>ownedTokens := ownedTokens s1, ownedTokensIndex := ownedTokensIndex s1,
                       allTokens := allTokens s1, allTokensIndex := allTokensIndex s1\<rparr>"
    and alls: "prev \<noteq> 0 \<Longrightarrow> to \<noteq> 0 \<Longrightarrow> allTokens s1 = allTokens s0"
    using assms base
    by (auto simp: Enumerable_update_def addTokenToAllTokensEnumeration_def
        addTokenToOwnerEnumeration_def removeTokenFromOwnerEnumeration_def
        removeTokenFromAllTokensEnumeration_def balanceOf_def Let_def
        split: if_splits sum.splits)
  show "prev = owners s t" by (rule b(1))
  show "auth \<noteq> 0 \<Longrightarrow> isAuthorized s prev auth t" by (rule b(2))
  show "owners s1 = (owners s)(t := to)"
    by (subst enum) (simp add: b(3))
  show "tokenApprovals s1 = (if prev \<noteq> 0 then (tokenApprovals s)(t := 0) else tokenApprovals s)"
    by (subst enum) (simp add: b(4))
  show "balances s1 =
           (let b = (if prev \<noteq> 0
                     then (balances s)(prev := (balances s prev + UINT256_MAX) mod 2 ^ 256)
                     else balances s)
            in if to \<noteq> 0 then b(to := (b to + 1) mod 2 ^ 256) else b)"
    by (subst enum) (simp add: b(5))
  have "allTokens s0 = allTokens s"
    by (subst b(6)) simp
  then show "prev \<noteq> 0 \<Longrightarrow> to \<noteq> 0 \<Longrightarrow> allTokens s1 = allTokens s"
    using alls by simp
  show "s1 = s\<lparr>owners := owners s1, balances := balances s1,
                 tokenApprovals := tokenApprovals s1, ownedTokens := ownedTokens s1,
                 ownedTokensIndex := ownedTokensIndex s1, allTokens := allTokens s1,
                 allTokensIndex := allTokensIndex s1, events := events s1\<rparr>"
  proof -
    have f: "owners s1 = owners s0" "balances s1 = balances s0"
      "tokenApprovals s1 = tokenApprovals s0" "events s1 = events s0"
      by (subst enum, simp)+
    show ?thesis
      by (subst enum, subst b(6)) (simp add: f)
  qed
qed

lemma mintWithCertification_unfold:
  "mintWithCertification R E s sender now to amount h sig =
     (if paused s then Inl EnforcedPause
      else if to = 0 then Inl (Require ''Cannot mint to zero address'')
      else if \<not> (amount > 0 \<and> amount \<le> 1000) then Inl (Require ''Invalid amount'')
      else if \<not> isProducer s to then Inl (Require ''Recipient must be registered producer'')
      else if certificationHashUsed s h then Inl (Require ''Certification hash already used'')
      else case recover E (certification_digest E to amount h) sig of
             Inl e \<Rightarrow> Inl e
           | Inr cert \<Rightarrow>
               if \<not> hasRole s CITY_ADMIN_ROLE cert then Inl (Require ''Invalid certifier signature'')
               else if nextTokenId s + amount > UINT256_MAX then Inl Panic
               else case mintLoop R E sender to cert now h amount
                           (s\<lparr>certificationHashUsed := (certificationHashUsed s)(h := True)\<rparr>) of
                      Inl e \<Rightarrow> Inl e
                    | Inr s2 \<Rightarrow>
                        Inr (s2\<lparr>events := events s2 @
                          [CreditsIssued to amount (nextTokenId s) (nextTokenId s + amount - 1) h]\<rparr>))"
  by (simp add: mintWithCertification_def certification_digest_def Let_def split: sum.splits)

lemma mintWithCertification_Inr:
  assumes "mintWithCertification R E s sender now to amount h sig = Inr s1"
  shows "\<exists>cert s2.
    \<not> paused s \<and> to \<noteq> 0 \<and> 0 < amount \<and> amount \<le> 1000 \<and> isProducer s to \<and>
    \<not> certificationHashUsed s h \<and>
    recover E (certification_digest E to amount h) sig = Inr cert \<and>
    hasRole s CITY_ADMIN_ROLE cert \<and>
    nextTokenId s + amount \<le> UINT256_MAX \<and>
    mintLoop R E sender to cert now h amount
       (s\<lparr>certificationHashUsed := (certificationHashUsed s)(h := True)\<rparr>) = Inr s2 \<and>
    s1 = s2\<lparr>events := events s2 @
              [CreditsIssued to amount (nextTokenId s) (nextTokenId s + amount - 1) h]\<rparr>"
  using assms unfolding mintWithCertification_unfold
  by (simp split: if_splits sum.splits)

lemma internal_update_Inr:
  assumes "internal_update s to t auth = Inr (prev, s1)"
  shows "\<not> paused s" and "prev \<noteq> 0 \<Longrightarrow> \<not> isRetired s t"
    and "Enumerable_update s to t auth = Inr (prev, s1)"
proof -
  show np: "\<not> paused s"
    using assms by (simp add: internal_update_def split: if_splits)
  show u: "Enumerable_update s to t auth = Inr (prev, s1)"
    using assms np by (simp add: internal_update_def Let_def split: if_splits)
  show "prev \<noteq> 0 \<Longrightarrow> \<not> isRetired s t"
    using assms np Enumerable_update_Inr(1) [OF u]
    by (simp add: internal_update_def internal_ownerOf_def Let_def split: if_splits)
qed

lemma transferFrom_Inr:
  assumes "transferFrom s sender from to t = Inr s1"
  shows "to \<noteq> 0" and "internal_update s to t sender = Inr (from, s1)"
proof -
  show nz: "to \<noteq> 0"
    using assms by (simp add: transferFrom_def split: if_splits)
  show "internal_update s to t sender = Inr (from, s1)"
    using assms nz by (simp add: transferFrom_def split: if_splits sum.splits prod.splits)
qed

lemma safeTransferFrom_Inr:
  "safeTransferFrom R E s now sender from to t = Inr s1 \<Longrightarrow>
   \<exists>sa. transferFrom s sender from to t = Inr sa \<and>
        checkOnERC721Received R E sa now sender from to t = Inr s1"
  by (simp add: safeTransferFrom_def split: sum.splits)

lemma ledger_inv_irrelevant [simp]:
  "ledger_inv (s\<lparr>events := ev\<rparr>) = ledger_inv s"
  "ledger_inv (s\<lparr>roles := ro\<rparr>) = ledger_inv s"
  "ledger_inv (s\<lparr>paused := pa\<rparr>) = ledger_inv s"
  "ledger_inv (s\<lparr>certificationHashUsed := hu\<rparr>) = ledger_inv s"
  "ledger_inv (s\<lparr>tokenCertifications := tc\<rparr>) = ledger_inv s"
  "ledger_inv (s\<lparr>isCountryAdmin := f1\<rparr>) = ledger_inv s"
  "ledger_inv (s\<lparr>countryAdminCountryId := g1\<rparr>) = ledger_inv s"
  "ledger_inv (s\<lparr>isStateAdmin := f2\<rparr>) = ledger_inv s"
  "ledger_inv (s\<lparr>stateAdminStateId := g2\<rparr>) = ledger_inv s"
  "ledger_inv (s\<lparr>isCityAdmin := f3\<rparr>) = ledger_inv s"
  "ledger_inv (s\<lparr>cityAdminCityId := g3\<rparr>) = ledger_inv s"
  "ledger_inv (s\<lparr>isProducer := f4\<rparr>) = ledger_inv s"
  "ledger_inv (s\<lparr>isBuyer := f5\<rparr>) = ledger_inv s"
  "ledger_inv (s\<lparr>isAuditor := f6\<rparr>) = ledger_inv s"
  "ledger_inv (s\<lparr>isRetired := r1\<rparr>) = ledger_inv s"
  "ledger_inv (s\<lparr>retiredBy := r2\<rparr>) = ledger_inv s"
  "ledger_inv (s\<lparr>retiredAt := r3\<rparr>) = ledger_inv s"
  by (simp_all add: ledger_inv_def)

lemma store_inv_irrelevant [simp]:
  "store_inv (s\<lparr>events := ev\<rparr>) = store_inv s"
  "store_inv (s\<lparr>roles := ro\<rparr>) = store_inv s"
  "store_inv (s\<lparr>paused := pa\<rparr>) = store_inv s"
  "store_inv (s\<lparr>certificationHashUsed := hu\<rparr>) = store_inv s"
  "store_inv (s\<lparr>tokenCertifications := tc\<rparr>) = store_inv s"
  "store_inv (s\<lparr>isCountryAdmin := f1\<rparr>) = store_inv s"
  "store_inv (s\<lparr>countryAdminCountryId := g1\<rparr>) = store_inv s"
  "store_inv (s\<lparr>isStateAdmin := f2\<rparr>) = store_inv s"
  "store_inv (s\<lparr>stateAdminStateId := g2\<rparr>) = store_inv s"
  "store_inv (s\<lparr>isCityAdmin := f3\<rparr>) = store_inv s"
  "store_inv (s\<lparr>cityAdminCityId := g3\<rparr>) = store_inv s"
  "store_inv (s\<lparr>isProducer := f4\<rparr>) = store_inv s"
  "store_inv (s\<lparr>isBuyer := f5\<rparr>) = store_inv s"
  "store_inv (s\<lparr>isAuditor := f6\<rparr>) = store_inv s"
  "store_inv (s\<lparr>isRetired := r1\<rparr>) = store_inv s"
  "store_inv (s\<lparr>retiredBy := r2\<rparr>) = store_inv s"
  "store_inv (s\<lparr>retiredAt := r3\<rparr>) = store_inv s"
  by (simp_all add: store_inv_def)

lemma store_same_refl: "store_same s s"
  by (simp add: store_same_def)

lemma store_same_kept: "store_same s s1 \<Longrightarrow> store_kept s s1"
  by (simp add: store_same_def store_kept_def minting_def)

lemma transferFrom_store:
  assumes tr: "transferFrom s sender from to t = Inr s1" and inv: "store_inv s"
    and sender: "sender \<noteq> 0"
  shows "store_inv s1" and "from \<noteq> 0" and "allTokens s1 = allTokens s"
    and "nextTokenId s1 = nextTokenId s" and "tokenCertifications s1 = tokenCertifications s"
proof -
  note u = internal_update_Inr [OF transferFrom_Inr(2) [OF tr]]
  note e = Enumerable_update_Inr [OF u(3)]
  have to: "to \<noteq> 0" by (rule transferFrom_Inr(1) [OF tr])
  have own: "owners s t = from" using e(1) by simp
  have auth: "isAuthorized s from sender t" using e(2) sender by simp
  show from0: "from \<noteq> 0"
  proof
    assume "from = 0"
    then have "\<not> isAuthorized s from sender t"
      using inv own sender by (auto simp: isAuthorized_def store_inv_def)
    with auth show False by simp
  qed
  show alls: "allTokens s1 = allTokens s"
    using e(6) from0 to by simp
  have frame: "operatorApprovals s1 = operatorApprovals s" "nextTokenId s1 = nextTokenId s"
    by (subst e(7), simp)+
  show "nextTokenId s1 = nextTokenId s"
    by (rule frame(2))
  show "tokenCertifications s1 = tokenCertifications s"
    by (subst e(7)) simp
  have fin: "finite {id. owners s id = a}" if "a \<noteq> 0" for a
    using owned_finite(1) [OF inv that] .
  have lt: "card {id. owners s id = a} \<le> length (allTokens s)" if "a \<noteq> 0" for a
    using owned_finite(2) [OF inv that] .
  have bal: "balances s a = card {id. owners s id = a}" if "a \<noteq> 0" for a
    using inv that by (simp add: store_inv_def)
  have max: "length (allTokens s) < UINT256_MAX"
    using inv by (simp add: store_inv_def)
  have pos: "0 < balances s from"
  proof -
    have "t \<in> {id. owners s id = from}" using own by simp
    then have "0 < card {id. owners s id = from}"
      using fin [OF from0] by (auto simp: card_gt_0_iff)
    then show ?thesis using bal [OF from0] by simp
  qed
  have dec: "(balances s from + UINT256_MAX) mod 2 ^ 256 = balances s from - 1"
  proof -
    have "balances s from + UINT256_MAX = (balances s from - 1) + 2 ^ 256"
      using pos by (simp add: UINT256_MAX_def)
    moreover have "balances s from - 1 < 2 ^ 256"
      using lt [OF from0] bal [OF from0] max by (simp add: UINT256_MAX_def)
    ultimately show ?thesis by simp
  qed
  have inc: "(n + 1) mod 2 ^ 256 = n + 1" if "n \<le> length (allTokens s)" for n :: nat
    using that max by (simp add: UINT256_MAX_def)
  have cards: "balances s1 a = card {id. owners s1 id = a}" if a: "a \<noteq> 0" for a
  proof (cases "from = to")
    case True
    have "{id. owners s1 id = a} = {id. owners s id = a}"
      using own True by (auto simp: e(3))
    moreover have "balances s1 a = balances s a"
      using True from0 pos dec inc [of "balances s from - 1"] lt [OF from0] bal [OF from0]
      by (simp add: e(5) Let_def)
    ultimately show ?thesis using bal [OF a] by simp
  next
    case False
    show ?thesis
    proof (cases "a = from")
      case True
      have "{id. owners s1 id = a} = {id. owners s id = a} - {t}"
        using own True False by (auto simp: e(3))
      moreover have "t \<in> {id. owners s id = a}" using own True by simp
      ultimately have "card {id. owners s1 id = a} = card {id. owners s id = a} - 1"
        using fin [OF a] by simp
      moreover have "balances s1 a = balances s a - 1"
        using True False from0 to dec by (simp add: e(5) Let_def)
      ultimately show ?thesis using bal [OF a] by simp
    next
      case nf: False
      show ?thesis
      proof (cases "a = to")
        case True
        have "{id. owners s1 id = a} = insert t {id. owners s id = a}"
          using True by (auto simp: e(3))
        moreover have "t \<notin> {id. owners s id = a}" using own True False by simp
        ultimately have "card {id. owners s1 id = a} = card {id. owners s id = a} + 1"
          using fin [OF a] by simp
        moreover have "balances s1 a = balances s a + 1"
          using True False from0 to inc [of "balances s to"] lt [OF to] bal [OF to]
          by (simp add: e(5) Let_def)
        ultimately show ?thesis using bal [OF a] by simp
      next
        case False
        have "{id. owners s1 id = a} = {id. owners s id = a}"
          using own False nf by (auto simp: e(3))
        moreover have "balances s1 a = balances s a"
          using False nf from0 to by (simp add: e(5) Let_def)
        ultimately show ?thesis using bal [OF a] by simp
      qed
    qed
  qed
  have "nextTokenId s1 = length (allTokens s1) + 1 \<or>
      nextTokenId s1 = length (allTokens s1) \<and> owners s1 (nextTokenId s1) \<noteq> 0"
    using inv alls frame to by (auto simp: e(3) store_inv_def)
  moreover have "length (allTokens s1) < UINT256_MAX"
    using inv alls by (simp add: store_inv_def)
  moreover have "\<forall>id. owners s1 id \<noteq> 0 \<longrightarrow> 0 < id \<and> id \<le> length (allTokens s1)"
    using inv own from0 alls by (auto simp: e(3) store_inv_def)
  moreover have "\<forall>id. owners s1 id = 0 \<longrightarrow> tokenApprovals s1 id = 0"
    using inv from0 to by (auto simp: e(3) e(4) store_inv_def)
  moreover have "\<forall>a. \<not> operatorApprovals s1 0 a"
    using inv frame by (simp add: store_inv_def)
  ultimately show "store_inv s1"
    using cards unfolding store_inv_def by blast
qed

lemma mintWithCertification_frame:
  assumes "accepts_quietly R E to"
    and "mintWithCertification R E s sender now to amount h sig = Inr s1"
  shows "s1 = s\<lparr>certificationHashUsed := (certificationHashUsed s)(h := True),
                 owners := owners s1, balances := balances s1, ownedTokens := ownedTokens s1,
                 ownedTokensIndex := ownedTokensIndex s1, allTokens := allTokens s1,
                 allTokensIndex := allTokensIndex s1, nextTokenId := nextTokenId s1,
                 tokenCertifications := tokenCertifications s1, events := events s1\<rparr>"
proof -
  from mintWithCertification_Inr [OF assms(2)] obtain cert s2 where
    loop: "mintLoop R E sender to cert now h amount
       (s\<lparr>certificationHashUsed := (certificationHashUsed s)(h := True)\<rparr>) = Inr s2"
    and s1: "s1 = s2\<lparr>events := events s2 @
              [CreditsIssued to amount (nextTokenId s) (nextTokenId s + amount - 1) h]\<rparr>"
    by blast
  show ?thesis
    by (subst s1, subst mintLoop_frame [OF assms(1) loop]) (simp add: s1)
qed

lemma transferFrom_frame:
  assumes "transferFrom s sender from to t = Inr s1"
  shows "s1 = s\<lparr>owners := owners s1, balances := balances s1,
                 tokenApprovals := tokenApprovals s1, ownedTokens := ownedTokens s1,
                 ownedTokensIndex := ownedTokensIndex s1, allTokens := allTokens s1,
                 allTokensIndex := allTokensIndex s1, events := events s1\<rparr>"
  by (rule Enumerable_update_Inr(7)
      [OF internal_update_Inr(3) [OF transferFrom_Inr(2) [OF assms]]])

lemmas registry_defs = appointCountryAdmin_def appointStateAdmin_def appointCityAdmin_def
  registerProducer_def registerBuyer_def registerAuditor_def retire_def pause_def unpause_def
  internal_pause_def internal_unpause_def approve_def setApprovalForAll_def grantRole_def
  revokeRole_def renounceRole_def internal_grantRole_def internal_revokeRole_def checkRole_def
  internal_ownerOf_def

subsection \<open>The invariant of reachable ledgers\<close>

lemma approve_store:
  "approve s sender to t = Inr s1 \<Longrightarrow> store_same s s1"
  by (auto simp: approve_def internal_ownerOf_def store_same_def store_inv_def Let_def
      split: if_splits)

lemma setApprovalForAll_store:
  "setApprovalForAll s sender operator approved = Inr s1 \<Longrightarrow> sender \<noteq> 0 \<Longrightarrow> store_same s s1"
  by (auto simp: setApprovalForAll_def store_same_def store_inv_def split: if_splits)

lemma grantRole_store [simp]:
  "store_inv (internal_grantRole s sender r a) = store_inv s"
  "store_inv (internal_revokeRole s sender r a) = store_inv s"
  by (simp_all add: internal_grantRole_def internal_revokeRole_def)

lemma registry_frame:
  "allTokens (internal_grantRole s sender r a) = allTokens s"
  "nextTokenId (internal_grantRole s sender r a) = nextTokenId s"
  "tokenCertifications (internal_grantRole s sender r a) = tokenCertifications s"
  "allTokens (internal_revokeRole s sender r a) = allTokens s"
  "nextTokenId (internal_revokeRole s sender r a) = nextTokenId s"
  "tokenCertifications (internal_revokeRole s sender r a) = tokenCertifications s"
  by (simp_all add: internal_grantRole_def internal_revokeRole_def)

lemma registry_store:
  "appointCountryAdmin s sender a i = Inr s1 \<Longrightarrow> store_same s s1"
  "appointStateAdmin s sender a i = Inr s1 \<Longrightarrow> store_same s s1"
  "appointCityAdmin s sender a i = Inr s1 \<Longrightarrow> store_same s s1"
  "registerProducer s sender a = Inr s1 \<Longrightarrow> store_same s s1"
  "registerBuyer s sender = Inr s1 \<Longrightarrow> store_same s s1"
  "registerAuditor s sender a = Inr s1 \<Longrightarrow> store_same s s1"
  "retire s sender now t = Inr s1 \<Longrightarrow> store_same s s1"
  "pause s sender = Inr s1 \<Longrightarrow> store_same s s1"
  "unpause s sender = Inr s1 \<Longrightarrow> store_same s s1"
  "grantRole s sender r a = Inr s1 \<Longrightarrow> store_same s s1"
  "revokeRole s sender r a = Inr s1 \<Longrightarrow> store_same s s1"
  "renounceRole s sender r a = Inr s1 \<Longrightarrow> store_same s s1"
  by (auto simp: appointCountryAdmin_def appointStateAdmin_def appointCityAdmin_def
      registerProducer_def registerBuyer_def registerAuditor_def retire_def pause_def unpause_def
      internal_pause_def internal_unpause_def grantRole_def revokeRole_def renounceRole_def
      checkRole_def Let_def store_same_def registry_frame split: if_splits)

lemma transferFrom_same:
  "transferFrom s sender from to t = Inr s1 \<Longrightarrow> sender \<noteq> 0 \<Longrightarrow> store_same s s1"
  unfolding store_same_def
  using transferFrom_store(1,3,4,5) [of s sender "from" to t s1] by blast

lemma minting_mint_fails:
  assumes "store_inv s" "minting s" "0 < n"
  shows "isl (mintLoop R E sender to cert now h n s)"
proof -
  obtain k where n: "n = Suc k"
    using assms(3) by (cases n) simp_all
  have "owners s (nextTokenId s) \<noteq> 0"
    using assms(1,2) by (auto simp: store_inv_def minting_def)
  then have "isl (internal_mint s to (nextTokenId s))"
    using internal_mint_Inr [of s to "nextTokenId s"] by (cases "internal_mint s to (nextTokenId s)") auto
  then show ?thesis
    by (auto simp: n mintLoop_Suc mintStep_def internal_safeMint_def isl_def)
qed

lemma mintWithCertification_store:
  assumes keep: "hooks_keep store_kept R"
    and m: "mintWithCertification R E s sender now to amount h sig = Inr s1"
  shows "store_kept s s1"
proof -
  from mintWithCertification_Inr [OF m] obtain cert s2 where
    pos: "0 < amount" and room: "nextTokenId s + amount \<le> UINT256_MAX"
    and loop: "mintLoop R E sender to cert now h amount
       (s\<lparr>certificationHashUsed := (certificationHashUsed s)(h := True)\<rparr>) = Inr s2"
    and s1: "s1 = s2\<lparr>events := events s2 @
              [CreditsIssued to amount (nextTokenId s) (nextTokenId s + amount - 1) h]\<rparr>"
    by blast
  let ?s = "s\<lparr>certificationHashUsed := (certificationHashUsed s)(h := True)\<rparr>"
  have "store_inv s1 \<and> take (length (allTokens s)) (allTokens s1) = allTokens s \<and>
        \<not> minting s \<and> \<not> minting s1" if st: "store_inv s"
  proof -
    have nm: "\<not> minting s"
    proof
      assume "minting s"
      then have "isl (mintLoop R E sender to cert now h amount ?s)"
        using st pos by (intro minting_mint_fails) (simp_all add: minting_def)
      then show False
        using loop by simp
    qed
    then have "ledger_inv ?s"
      using st by (simp add: ledger_inv_store minting_def)
    from mintLoop_store [OF keep loop this] room
    have "ledger_inv s2" "allTokens s2 = allTokens s @ [nextTokenId s..<nextTokenId s + amount]"
      by simp_all
    then have "ledger_inv s1" "allTokens s1 = allTokens s @ [nextTokenId s..<nextTokenId s + amount]"
      by (simp_all add: s1)
    then show ?thesis
      using nm by (simp add: ledger_inv_store)
  qed
  then show ?thesis
    unfolding store_kept_def by blast
qed

lemma safeTransferFrom_store:
  assumes keep: "hooks_keep store_kept R" and sender: "sender \<noteq> 0"
    and tr: "safeTransferFrom R E s now sender from to t = Inr s1"
  shows "store_kept s s1"
proof -
  from safeTransferFrom_Inr [OF tr] obtain sa where
    a: "transferFrom s sender from to t = Inr sa"
    and c: "checkOnERC721Received R E sa now sender from to t = Inr s1"
    by blast
  have "store_kept s sa"
    using a sender by (intro store_same_kept transferFrom_same)
  moreover have "store_kept sa s1"
    using keep store_kept_refl c by (rule check_kept)
  ultimately show ?thesis
    by (rule store_kept_trans)
qed

lemma exec_with_store:
  assumes "hooks_keep store_kept R" "sender \<noteq> 0" "exec_with R E s sender now c = Inr s1"
  shows "store_kept s s1"
proof (cases c)
  case (MintWithCertification dst amount h sig)
  then have "mintWithCertification R E s sender now dst amount h sig = Inr s1"
    using assms(3) by simp
  with assms(1) show ?thesis
    by (rule mintWithCertification_store)
next
  case (TransferFrom src dst t)
  then have "transferFrom s sender src dst t = Inr s1"
    using assms(3) by simp
  then show ?thesis
    using assms(2) by (intro store_same_kept transferFrom_same)
next
  case (SafeTransferFrom src dst t)
  then have "safeTransferFrom R E s now sender src dst t = Inr s1"
    using assms(3) by simp
  with assms(1,2) show ?thesis
    by (rule safeTransferFrom_store)
next
  case (Approve dst t)
  then have "approve s sender dst t = Inr s1"
    using assms(3) by simp
  then show ?thesis
    by (intro store_same_kept approve_store)
next
  case (SetApprovalForAll operator approved)
  then have "setApprovalForAll s sender operator approved = Inr s1"
    using assms(3) by simp
  then show ?thesis
    using assms(2) by (intro store_same_kept setApprovalForAll_store)
next
  case (AppointCountryAdmin a i)
  then have "appointCountryAdmin s sender a i = Inr s1" using assms(3) by simp
  then show ?thesis by (intro store_same_kept registry_store)
next
  case (AppointStateAdmin a i)
  then have "appointStateAdmin s sender a i = Inr s1" using assms(3) by simp
  then show ?thesis by (intro store_same_kept registry_store)
next
  case (AppointCityAdmin a i)
  then have "appointCityAdmin s sender a i = Inr s1" using assms(3) by simp
  then show ?thesis by (intro store_same_kept registry_store)
next
  case (RegisterProducer a)
  then have "registerProducer s sender a = Inr s1" using assms(3) by simp
  then show ?thesis by (intro store_same_kept registry_store)
next
  case RegisterBuyer
  then have "registerBuyer s sender = Inr s1" using assms(3) by simp
  then show ?thesis by (intro store_same_kept registry_store)
next
  case (RegisterAuditor a)
  then have "registerAuditor s sender a = Inr s1" using assms(3) by simp
  then show ?thesis by (intro store_same_kept registry_store)
next
  case (Retire t)
  then have "retire s sender now t = Inr s1" using assms(3) by simp
  then show ?thesis by (intro store_same_kept registry_store)
next
  case Pause
  then have "pause s sender = Inr s1" using assms(3) by simp
  then show ?thesis by (intro store_same_kept registry_store)
next
  case Unpause
  then have "unpause s sender = Inr s1" using assms(3) by simp
  then show ?thesis by (intro store_same_kept registry_store)
next
  case (GrantRole r a)
  then have "grantRole s sender r a = Inr s1" using assms(3) by simp
  then show ?thesis by (intro store_same_kept registry_store)
next
  case (RevokeRole r a)
  then have "revokeRole s sender r a = Inr s1" using assms(3) by simp
  then show ?thesis by (intro store_same_kept registry_store)
next
  case (RenounceRole r a)
  then have "renounceRole s sender r a = Inr s1" using assms(3) by simp
  then show ?thesis by (intro store_same_kept registry_store)
qed

text \<open>What every committed call keeps, the calls of a receiver keep.\<close>

lemma run_calls_keep:
  assumes step: "\<And>s sender c s1. sender \<noteq> 0 \<Longrightarrow> ex s sender now c = Inr s1 \<Longrightarrow> P s s1"
    and refl: "\<And>s. P s s" and trans: "\<And>s s1 s2. P s s1 \<Longrightarrow> P s1 s2 \<Longrightarrow> P s s2"
  shows "P s (run_calls ex s now calls)"
proof (induction calls arbitrary: s)
  case Nil
  show ?case by (simp add: refl)
next
  case (Cons rc calls)
  obtain sender c where rc: "rc = (sender, c)"
    by (cases rc)
  show ?case
  proof (cases "sender = 0")
    case True
    then show ?thesis
      using Cons.IH [of s] by (simp add: rc)
  next
    case False
    show ?thesis
    proof (cases "ex s sender now c")
      case (Inl e)
      then show ?thesis
        using Cons.IH [of s] False by (simp add: rc)
    next
      case (Inr s1)
      have "P s s1"
        using False Inr by (rule step)
      then have "P s (run_calls ex s1 now calls)"
        using Cons.IH [of s1] by (rule trans)
      then show ?thesis
        using False Inr by (simp add: rc)
    qed
  qed
qed

lemma reentry_at_store: "hooks_keep store_kept (reentry_at d E)"
proof (induction d)
  case 0
  show ?case by (simp add: hooks_keep_def)
next
  case (Suc d)
  have "store_kept s (run_calls (exec_with (reentry_at d E) E) s now calls)" for s now calls
    by (rule run_calls_keep [OF exec_with_store [OF Suc] store_kept_refl store_kept_trans])
  then show ?case
    by (simp add: hooks_keep_def)
qed

lemma exec_store: "sender \<noteq> 0 \<Longrightarrow> exec d E s sender now c = Inr s1 \<Longrightarrow> store_kept s s1"
  unfolding exec_def by (rule exec_with_store [OF reentry_at_store])

lemma exec_inv:
  assumes "exec d E s sender now c = Inr s1" "sender \<noteq> 0" "ledger_inv s"
  shows "ledger_inv s1"
  using exec_store [OF assms(2,1)] assms(3) by (simp add: store_kept_def ledger_inv_store)

lemma constructor_inv:
  "constructor deployer mainAdmin = Inr s \<Longrightarrow> ledger_inv s"
  by (auto simp: constructor_def ledger_inv_def initial_storage_def internal_grantRole_def
      hasRole_def UINT256_MAX_def split: if_splits)

lemma reachable_inv: "reachable E s \<Longrightarrow> ledger_inv s"
proof (induction rule: reachable.induct)
  case (deployed deployer mainAdmin s)
  then show ?case by (rule constructor_inv)
next
  case (committed s sender d now c s1)
  from committed.hyps(3,2) committed.IH show ?case by (rule exec_inv)
qed

lemma run_Cons_Inl:
  "exec d E s sender now c = Inl e \<Longrightarrow> run d E s ((sender, now, c) # txs) = run d E s txs"
  by simp

lemma run_Cons_Inr:
  "exec d E s sender now c = Inr s1 \<Longrightarrow> run d E s ((sender, now, c) # txs) = run d E s1 txs"
  by simp

lemma valid_txs_Cons:
  "valid_txs ((sender, now, c) # txs) \<longleftrightarrow> sender \<noteq> 0 \<and> valid_txs txs"
  by (simp add: valid_txs_def)

lemma reachable_run:
  "reachable E s \<Longrightarrow> valid_txs txs \<Longrightarrow> reachable E (run d E s txs)"
proof (induction txs arbitrary: s)
  case Nil
  then show ?case by simp
next
  case (Cons tx txs)
  obtain sender now c where tx: "tx = (sender, now, c)"
    using prod_cases3 by blast
  have sender: "sender \<noteq> 0" and rest: "valid_txs txs"
    using Cons.prems(2) unfolding tx valid_txs_Cons by blast+
  show ?case
  proof (cases "exec d E s sender now c")
    case (Inl e)
    have "reachable E (run d E s txs)"
      using Cons.prems(1) rest by (rule Cons.IH)
    then show ?thesis
      unfolding tx run_Cons_Inl [OF Inl] .
  next
    case (Inr s1)
    have "reachable E s1"
      using Cons.prems(1) sender Inr by (rule reachable.committed)
    then have "reachable E (run d E s1 txs)"
      using rest by (rule Cons.IH)
    then show ?thesis
      unfolding tx run_Cons_Inr [OF Inr] .
  qed
qed

subsection \<open>Calls taken apart\<close>

lemma mintLoop_plain:
  assumes "hooks_keep plain_step\<^sup>*\<^sup>* R"
  shows "mintLoop R E sender to cert now h n s = Inr s1 \<Longrightarrow> plain_step\<^sup>*\<^sup>* s s1"
proof (induction n arbitrary: s)
  case 0
  then show ?case by simp
next
  case (Suc n)
  from Suc.prems obtain sa sb where m: "internal_mint s to (nextTokenId s) = Inr sa"
    and c: "checkOnERC721Received R E sa now sender 0 to (nextTokenId s) = Inr sb"
    and rest: "mintLoop R E sender to cert now h n
        (sb\<lparr>tokenCertifications := (tokenCertifications sb)(nextTokenId sb :=
          \<lparr>producer = to, certifier = cert, timestamp = now, metadata = [],
           certificationHash = h\<rparr>), nextTokenId := nextTokenId sb + 1\<rparr>) = Inr s1"
    by (auto simp: mintLoop_Suc mintStep_def internal_safeMint_def Let_def
        split: sum.splits if_splits)
  let ?sc = "sb\<lparr>tokenCertifications := (tokenCertifications sb)(nextTokenId sb :=
          \<lparr>producer = to, certifier = cert, timestamp = now, metadata = [],
           certificationHash = h\<rparr>)\<rparr>"
  have 1: "plain_step s sa"
    using m by (rule plain_step.minted)
  have 2: "plain_step\<^sup>*\<^sup>* sa sb"
    using assms _ c by (rule check_kept) simp
  have 3: "plain_step sb ?sc"
    by (rule plain_step.recorded)
  have 4: "plain_step ?sc (?sc\<lparr>nextTokenId := nextTokenId ?sc + 1\<rparr>)"
    by (rule plain_step.counted)
  have 5: "plain_step\<^sup>*\<^sup>* (?sc\<lparr>nextTokenId := nextTokenId ?sc + 1\<rparr>) s1"
    using rest by (intro Suc.IH) simp
  show ?case
    using 1 2 3 4 5 by (meson converse_rtranclp_into_rtranclp rtranclp_trans r_into_rtranclp)
qed

lemma plain_call_exec:
  "plain_call c \<Longrightarrow> exec_with R E s sender now c = exec_with None E s sender now c"
  by (cases c) simp_all

lemma exec_with_plain:
  assumes "hooks_keep plain_step\<^sup>*\<^sup>* R" "exec_with R E s sender now c = Inr s1"
  shows "plain_step\<^sup>*\<^sup>* s s1"
proof (cases "plain_call c")
  case True
  then have "plain_step s s1"
    using assms(2) plain_call_exec [OF True, of R E s sender now]
    by (intro plain_step.direct [of c E s sender now s1]) simp_all
  then show ?thesis by (rule r_into_rtranclp)
next
  case False
  then consider (mint) dst amount h sig where "c = MintWithCertification dst amount h sig"
    | (safe) src dst t where "c = SafeTransferFrom src dst t"
    by (cases c) simp_all
  then show ?thesis
  proof cases
    case mint
    then have "mintWithCertification R E s sender now dst amount h sig = Inr s1"
      using assms(2) by simp
    from mintWithCertification_Inr [OF this] obtain cert s2 where
      loop: "mintLoop R E sender dst cert now h amount
         (s\<lparr>certificationHashUsed := (certificationHashUsed s)(h := True)\<rparr>) = Inr s2"
      and s1: "s1 = s2\<lparr>events := events s2 @
                [CreditsIssued dst amount (nextTokenId s) (nextTokenId s + amount - 1) h]\<rparr>"
      by blast
    have 1: "plain_step s (s\<lparr>certificationHashUsed := (certificationHashUsed s)(h := True)\<rparr>)"
      by (rule plain_step.marked)
    have 2: "plain_step\<^sup>*\<^sup>* (s\<lparr>certificationHashUsed := (certificationHashUsed s)(h := True)\<rparr>) s2"
      using assms(1) loop by (rule mintLoop_plain)
    have 3: "plain_step s2 s1"
      unfolding s1 by (rule plain_step.logged)
    show ?thesis
      using 1 2 3 by (meson converse_rtranclp_into_rtranclp rtranclp.rtrancl_into_rtrancl)
  next
    case safe
    then have "safeTransferFrom R E s now sender src dst t = Inr s1"
      using assms(2) by simp
    from safeTransferFrom_Inr [OF this] obtain sa where
      a: "transferFrom s sender src dst t = Inr sa"
      and c: "checkOnERC721Received R E sa now sender src dst t = Inr s1"
      by blast
    have "plain_step s sa"
      using a by (rule plain_step.moved)
    moreover have "plain_step\<^sup>*\<^sup>* sa s1"
      using assms(1) _ c by (rule check_kept) simp
    ultimately show ?thesis
      by (rule converse_rtranclp_into_rtranclp)
  qed
qed

lemma reentry_at_plain: "hooks_keep plain_step\<^sup>*\<^sup>* (reentry_at d E)"
proof (induction d)
  case 0
  show ?case by (simp add: hooks_keep_def)
next
  case (Suc d)
  have "plain_step\<^sup>*\<^sup>* s (run_calls (exec_with (reentry_at d E) E) s now calls)" for s now calls
    by (rule run_calls_keep [where P = "plain_step\<^sup>*\<^sup>*"])
      (auto intro: exec_with_plain [OF Suc])
  then show ?case
    by (simp add: hooks_keep_def)
qed

lemma exec_plain: "exec d E s sender now c = Inr s1 \<Longrightarrow> plain_step\<^sup>*\<^sup>* s s1"
  unfolding exec_def by (rule exec_with_plain [OF reentry_at_plain])

lemma run_plain: "plain_step\<^sup>*\<^sup>* s (run d E s txs)"
proof (induction txs arbitrary: s)
  case Nil
  show ?case by simp
next
  case (Cons tx txs)
  obtain sender now c where tx: "tx = (sender, now, c)"
    using prod_cases3 by blast
  show ?case
  proof (cases "exec d E s sender now c")
    case (Inl e)
    show ?thesis
      using Cons.IH [of s] unfolding tx run_Cons_Inl [OF Inl] .
  next
    case (Inr s1)
    show ?thesis
      using exec_plain [OF Inr] Cons.IH [of s1] unfolding tx run_Cons_Inr [OF Inr]
      by (rule rtranclp_trans)
  qed
qed

lemma plain_lift:
  assumes "plain_step\<^sup>*\<^sup>* s s1"
    and step: "\<And>s s1. plain_step s s1 \<Longrightarrow> P s s1"
    and refl: "\<And>s. P s s" and trans: "\<And>s s1 s2. P s s1 \<Longrightarrow> P s1 s2 \<Longrightarrow> P s s2"
  shows "P s s1"
  using assms(1)
proof (induction rule: rtranclp_induct)
  case base
  show ?case by (rule refl)
next
  case (step y z)
  show ?case
    using step.IH assms(2) [OF step.hyps(2)] by (rule trans)
qed

text \<open>The appointment flags and the set of used certification hashes only grow.\<close>

lemma grows_refl: "grows s s"
  by (simp add: grows_def)

lemma grows_trans: "grows s s1 \<Longrightarrow> grows s1 s2 \<Longrightarrow> grows s s2"
  unfolding grows_def by (metis append_assoc)

lemma internal_mint_frame:
  assumes "internal_mint s to t = Inr s1"
  shows "s1 = s\<lparr>owners := owners s1, balances := balances s1,
                 tokenApprovals := tokenApprovals s1, ownedTokens := ownedTokens s1,
                 ownedTokensIndex := ownedTokensIndex s1, allTokens := allTokens s1,
                 allTokensIndex := allTokensIndex s1, events := events s1\<rparr>"
    and "owners s t = 0" and "owners s1 = (owners s)(t := to)"
    and "events s1 = events s @ [Transfer 0 to t]"
proof -
  from assms have u: "internal_update s to t 0 = Inr (0, s1)"
    by (auto simp: internal_mint_def split: if_splits sum.splits prod.splits)
  note e = Enumerable_update_Inr [OF internal_update_Inr(3) [OF u]]
  show "s1 = s\<lparr>owners := owners s1, balances := balances s1,
                 tokenApprovals := tokenApprovals s1, ownedTokens := ownedTokens s1,
                 ownedTokensIndex := ownedTokensIndex s1, allTokens := allTokens s1,
                 allTokensIndex := allTokensIndex s1, events := events s1\<rparr>"
    by (rule e(7))
  show "owners s t = 0" using e(1) by simp
  show "owners s1 = (owners s)(t := to)" by (rule e(3))
  show "events s1 = events s @ [Transfer 0 to t]"
    using assms by (auto simp: update_defs Let_def split: if_splits sum.splits prod.splits)
qed

lemma transferFrom_events:
  "transferFrom s sender from to t = Inr s1 \<Longrightarrow> events s1 = events s @ [Transfer from to t]"
  by (auto simp: transferFrom_def update_defs Let_def split: if_splits sum.splits prod.splits)

lemma plain_call_grows:
  assumes "plain_call c" "exec_with None E s sender now c = Inr s1"
  shows "grows s s1"
proof (cases c)
  case (TransferFrom src dst t)
  then have tr: "transferFrom s sender src dst t = Inr s1"
    using assms by simp
  have "isCountryAdmin s1 = isCountryAdmin s" "isStateAdmin s1 = isStateAdmin s"
    "isCityAdmin s1 = isCityAdmin s" "certificationHashUsed s1 = certificationHashUsed s"
    by (subst transferFrom_frame [OF tr], simp)+
  then show ?thesis
    using transferFrom_events [OF tr] by (simp add: grows_def)
qed (use assms in \<open>(clarsimp simp: grows_def registry_defs Let_def split: if_splits sum.splits)+\<close>)

lemma plain_step_grows: "plain_step s s1 \<Longrightarrow> grows s s1"
proof (induction rule: plain_step.induct)
  case (direct c E s sender now s1)
  then show ?case by (rule plain_call_grows)
next
  case (moved s sender src dst t s1)
  have "isCountryAdmin s1 = isCountryAdmin s" "isStateAdmin s1 = isStateAdmin s"
    "isCityAdmin s1 = isCityAdmin s" "certificationHashUsed s1 = certificationHashUsed s"
    by (subst transferFrom_frame [OF moved], simp)+
  then show ?case
    using transferFrom_events [OF moved] by (simp add: grows_def)
next
  case (minted s dst t s1)
  have "isCountryAdmin s1 = isCountryAdmin s" "isStateAdmin s1 = isStateAdmin s"
    "isCityAdmin s1 = isCityAdmin s" "certificationHashUsed s1 = certificationHashUsed s"
    by (subst internal_mint_frame(1) [OF minted], simp)+
  then show ?case
    using internal_mint_frame(4) [OF minted] by (simp add: grows_def)
qed (simp_all add: grows_def)

lemma plain_grows: "plain_step\<^sup>*\<^sup>* s s1 \<Longrightarrow> grows s s1"
  by (rule plain_lift [where P = grows]) (auto intro: plain_step_grows grows_refl grows_trans)

lemma exec_grows: "exec d E s sender now c = Inr s1 \<Longrightarrow> grows s s1"
  by (rule plain_grows [OF exec_plain])

lemma run_grows: "grows s (run d E s txs)"
  by (rule plain_grows [OF run_plain])

lemma hooks_grow: "hooks_keep grows (reentry_at d E)"
  using reentry_at_plain [of d E] unfolding hooks_keep_def by (auto intro: plain_grows)

text \<open>A retired credit that someone owns keeps its owner and its retirement record through
  every step.\<close>

lemma frozen_refl: "frozen t s s"
  by (simp add: frozen_def)

lemma frozen_trans: "frozen t s s1 \<Longrightarrow> frozen t s1 s2 \<Longrightarrow> frozen t s s2"
  by (auto simp: frozen_def)

lemma transferFrom_frozen:
  assumes tr: "transferFrom s sender src dst t' = Inr s1"
  shows "frozen t s s1"
proof -
  have "owners s1 t = owners s t \<and> isRetired s1 t \<and> retiredBy s1 t = retiredBy s t \<and>
         retiredAt s1 t = retiredAt s t" if a: "isRetired s t" "owners s t \<noteq> 0"
  proof -
    note u = internal_update_Inr [OF transferFrom_Inr(2) [OF tr]]
    note e = Enumerable_update_Inr [OF u(3)]
    have "t' \<noteq> t"
      using u(2) e(1) a by auto
    then have "owners s1 t = owners s t"
      by (simp add: e(3))
    moreover have "isRetired s1 = isRetired s" "retiredBy s1 = retiredBy s" "retiredAt s1 = retiredAt s"
      by (subst transferFrom_frame [OF tr], simp)+
    ultimately show ?thesis
      using a by simp
  qed
  then show ?thesis
    by (simp add: frozen_def)
qed

lemma plain_call_frozen:
  assumes "plain_call c" "exec_with None E s sender now c = Inr s1"
  shows "frozen t s s1"
proof (cases c)
  case (TransferFrom src dst t')
  then have "transferFrom s sender src dst t' = Inr s1"
    using assms by simp
  then show ?thesis by (rule transferFrom_frozen)
qed (use assms in \<open>(clarsimp simp: frozen_def registry_defs Let_def split: if_splits sum.splits)+\<close>)

lemma plain_step_frozen: "plain_step s s1 \<Longrightarrow> frozen t s s1"
proof (induction rule: plain_step.induct)
  case (direct c E s sender now s1)
  then show ?case by (rule plain_call_frozen)
next
  case (moved s sender src dst t' s1)
  then show ?case by (rule transferFrom_frozen)
next
  case (minted s dst t' s1)
  note f = internal_mint_frame [OF minted]
  have "isRetired s1 = isRetired s" "retiredBy s1 = retiredBy s" "retiredAt s1 = retiredAt s"
    by (subst f(1), simp)+
  then show ?case
    using f(2) by (auto simp: frozen_def f(3))
qed (simp_all add: frozen_def)

lemma plain_frozen: "plain_step\<^sup>*\<^sup>* s s1 \<Longrightarrow> frozen t s s1"
  by (rule plain_lift [where P = "frozen t"])
    (auto intro: plain_step_frozen frozen_refl frozen_trans)

lemma run_frozen: "frozen t s (run d E s txs)"
  by (rule plain_frozen [OF run_plain])

subsection \<open>Certified minting\<close>

lemma exec_mint:
  "exec d E s sender now (MintWithCertification to amount h sig) =
     mintWithCertification (reentry_at d E) E s sender now to amount h sig"
  by (simp add: exec_def)

lemma deployed_ledger_constructed: "constructor 9 1 = Inr deployed_ledger"
  by (simp add: constructor_def deployed_ledger_def)

lemma mintWithCertification_succeeds:
  assumes "ledger_inv s" "\<not> paused s" "to \<noteq> 0" "0 < amount" "amount \<le> 1000"
    "isProducer s to" "\<not> certificationHashUsed s h"
    "recover E (certification_digest E to amount h) sig = Inr cert"
    "hasRole s CITY_ADMIN_ROLE cert" "accepts_quietly R E to"
    "nextTokenId s + amount \<le> UINT256_MAX"
  shows "\<exists>s1. mintWithCertification R E s sender now to amount h sig = Inr s1"
proof -
  let ?s = "s\<lparr>certificationHashUsed := (certificationHashUsed s)(h := True)\<rparr>"
  have "\<exists>s2. mintLoop R E sender to cert now h amount ?s = Inr s2"
    using assms by (intro mintLoop_succeeds) simp_all
  then show ?thesis
    using assms by (auto simp: mintWithCertification_unfold)
qed

lemma be_nat_zeros: "be_nat (replicate n 0) = 0"
  unfolding be_nat_def by (induction n) simp_all

lemma example_recover: "recover example_env d example_signature = Inr 5"
  by (simp add: recover_def tryRecover_vrs_def example_env_def example_signature_def
      be_nat_zeros SECP256K1_HALF_N_def)

lemma example_quiet: "accepts_quietly R example_env a"
  by (rule no_code_quiet) (simp add: example_env_def)

lemma deployed_reachable: "reachable E deployed_ledger"
  using deployed_ledger_constructed by (rule reachable.deployed)

lemma run_plain_calls:
  "list_all (\<lambda>(sender, now, c). plain_call c) txs \<Longrightarrow> run d E s txs = run d' E' s txs"
proof (induction txs arbitrary: s)
  case Nil
  show ?case by simp
next
  case (Cons tx txs)
  obtain sender now c where tx: "tx = (sender, now, c)"
    using prod_cases3 by blast
  have c: "plain_call c" and rest: "list_all (\<lambda>(sender, now, c). plain_call c) txs"
    using Cons.prems by (simp_all add: tx)
  have "exec d E s sender now c = exec d' E' s sender now c"
    using c by (cases c) (simp_all add: exec_def)
  then show ?case
    using Cons.IH [OF rest] by (simp add: tx split: sum.splits)
qed

lemma chain_ledger_run:
  "chain_ledger =
     run d E deployed_ledger
       [(1, 10, AppointCountryAdmin 2 1), (2, 11, AppointStateAdmin 3 9),
        (3, 12, AppointCityAdmin 5 4), (5, 13, RegisterProducer 7)]"
  unfolding chain_ledger_def by (rule run_plain_calls) simp

lemma chain_reachable: "reachable E chain_ledger"
  unfolding chain_ledger_run [of 0 E]
  by (rule reachable_run [OF deployed_reachable]) (simp add: valid_txs_def)

lemmas example_defs = deployed_ledger_def initial_storage_def internal_grantRole_def hasRole_def
  checkRole_def appointCountryAdmin_def appointStateAdmin_def appointCityAdmin_def
  registerProducer_def exec_def

lemma chain_facts:
  "isProducer chain_ledger 7" "hasRole chain_ledger CITY_ADMIN_ROLE 5" "\<not> paused chain_ledger"
  "\<not> certificationHashUsed chain_ledger h" "nextTokenId chain_ledger = 1"
  "allTokens chain_ledger = []" "owners chain_ledger t = 0" "hasRole chain_ledger MAIN_ADMIN_ROLE 1"
  "\<not> isRetired chain_ledger t" "balances chain_ledger a = 0"
  by (simp_all add: chain_ledger_def example_defs)

lemma minted_ledger_minted:
  "exec 0 example_env chain_ledger 8 20 (MintWithCertification 7 2 0xAA example_signature) =
     Inr minted_ledger"
proof -
  have "\<exists>s1. mintWithCertification (reentry_at 0 example_env) example_env chain_ledger 8 20 7 2
      0xAA example_signature = Inr s1"
    by (rule mintWithCertification_succeeds [where cert = 5])
      (simp_all add: chain_facts example_recover reachable_inv [OF chain_reachable]
        UINT256_MAX_def example_quiet)
  then show ?thesis
    by (auto simp: minted_ledger_def exec_mint)
qed

lemma map_owners_minted:
  assumes "\<forall>id. f id = (if n \<le> id \<and> id < n + k then v else g id)"
  shows "map f [n..<n + k] = replicate k v"
  using assms by (simp add: list_eq_iff_nth_eq)

lemma map_owners_fresh:
  assumes "\<forall>id. n \<le> id \<and> id < n + k \<longrightarrow> g id = v"
  shows "map g [n..<n + k] = replicate k v"
  using assms by (simp add: list_eq_iff_nth_eq)

lemma reachable_next: "reachable E s \<Longrightarrow> nextTokenId s = totalSupply s + 1"
  by (drule reachable_inv) (simp add: ledger_inv_def totalSupply_def)

text \<open>What a committed mint does, whatever the recipient does when it is called.\<close>

lemma mintWithCertification_effect:
  assumes "ledger_inv s"
    and "mintWithCertification (reentry_at d E) E s sender now to amount h sig = Inr s1"
  shows "\<exists>cert. recover E (certification_digest E to amount h) sig = Inr cert \<and>
     hasRole s CITY_ADMIN_ROLE cert \<and>
     totalSupply s1 = totalSupply s + amount \<and>
     allTokens s1 = allTokens s @ [totalSupply s + 1..<totalSupply s + 1 + amount] \<and>
     map (owners s) [totalSupply s + 1..<totalSupply s + 1 + amount] = replicate amount 0 \<and>
     (\<forall>id. tokenCertifications s1 id =
        (if totalSupply s + 1 \<le> id \<and> id < totalSupply s + 1 + amount
         then \<lparr>producer = to, certifier = cert, timestamp = now, metadata = [],
               certificationHash = h\<rparr>
         else tokenCertifications s id)) \<and>
     (\<exists>evs. events s1 = events s @ evs @
         [CreditsIssued to amount (totalSupply s + 1) (totalSupply s + amount) h]) \<and>
     ledger_inv s1 \<and> certificationHashUsed s1 h"
proof -
  let ?s = "s\<lparr>certificationHashUsed := (certificationHashUsed s)(h := True)\<rparr>"
  from mintWithCertification_Inr [OF assms(2)] obtain cert s2 where
    cert: "recover E (certification_digest E to amount h) sig = Inr cert"
      "hasRole s CITY_ADMIN_ROLE cert"
    and room: "nextTokenId s + amount \<le> UINT256_MAX"
    and loop: "mintLoop (reentry_at d E) E sender to cert now h amount ?s = Inr s2"
    and s1: "s1 = s2\<lparr>events := events s2 @
              [CreditsIssued to amount (nextTokenId s) (nextTokenId s + amount - 1) h]\<rparr>"
    by blast
  have n: "nextTokenId s = totalSupply s + 1"
    using assms(1) by (simp add: ledger_inv_def totalSupply_def)
  have "ledger_inv ?s" "nextTokenId ?s + amount \<le> UINT256_MAX"
    using assms(1) room by simp_all
  note l = mintLoop_store [OF reentry_at_store loop this]
  have g: "grows ?s s2"
    by (rule plain_grows [OF mintLoop_plain [OF reentry_at_plain loop]])
  then obtain evs where evs: "events s2 = events s @ evs"
    by (auto simp: grows_def)
  have "totalSupply s1 = totalSupply s + amount"
    using l by (simp add: s1 totalSupply_def)
  moreover have "allTokens s1 = allTokens s @ [totalSupply s + 1..<totalSupply s + 1 + amount]"
    using l n by (simp add: s1)
  moreover have "map (owners s) [totalSupply s + 1..<totalSupply s + 1 + amount] = replicate amount 0"
    using l n by (intro map_owners_fresh) simp
  moreover have "\<forall>id. tokenCertifications s1 id =
        (if totalSupply s + 1 \<le> id \<and> id < totalSupply s + 1 + amount
         then \<lparr>producer = to, certifier = cert, timestamp = now, metadata = [],
               certificationHash = h\<rparr>
         else tokenCertifications s id)"
    using l n by (simp add: s1)
  moreover have "\<exists>evs. events s1 = events s @ evs @
         [CreditsIssued to amount (totalSupply s + 1) (totalSupply s + amount) h]"
    using evs n by (simp add: s1)
  moreover have "ledger_inv s1"
    using l by (simp add: s1)
  moreover have "certificationHashUsed s1 h"
    using g by (simp add: s1 grows_def)
  ultimately show ?thesis
    using cert by blast
qed

text \<open>What it does for a recipient that takes the tokens quietly.\<close>

lemma mintWithCertification_quiet:
  assumes "accepts_quietly R E to"
    and "mintWithCertification R E s sender now to amount h sig = Inr s1"
  shows "(\<forall>id. owners s1 id =
        (if nextTokenId s \<le> id \<and> id < nextTokenId s + amount then to else owners s id)) \<and>
     events s1 = events s @ map (Transfer 0 to) [nextTokenId s..<nextTokenId s + amount]
                 @ [CreditsIssued to amount (nextTokenId s) (nextTokenId s + amount - 1) h]"
proof -
  let ?s = "s\<lparr>certificationHashUsed := (certificationHashUsed s)(h := True)\<rparr>"
  from mintWithCertification_Inr [OF assms(2)] obtain cert s2 where
    loop: "mintLoop R E sender to cert now h amount ?s = Inr s2"
    and s1: "s1 = s2\<lparr>events := events s2 @
              [CreditsIssued to amount (nextTokenId s) (nextTokenId s + amount - 1) h]\<rparr>"
    by blast
  note l = mintLoop_Inr [OF assms(1) loop]
  show ?thesis
    using l by (simp add: s1)
qed

lemma minted_reachable: "reachable example_env minted_ledger"
  using chain_reachable _ minted_ledger_minted
  by (rule reachable.committed) simp

lemma minted_facts:
  "totalSupply minted_ledger = 2" "allTokens minted_ledger = [1, 2]"
  "nextTokenId minted_ledger = 3"
  "owners minted_ledger t = (if 1 \<le> t \<and> t < 3 then 7 else 0)"
  "isProducer minted_ledger 7" "hasRole minted_ledger CITY_ADMIN_ROLE 5"
  "hasRole minted_ledger MAIN_ADMIN_ROLE 1" "\<not> paused minted_ledger"
  "certificationHashUsed minted_ledger x = (x = 0xAA)" "\<not> isRetired minted_ledger t"
proof -
  have t0: "totalSupply chain_ledger = 0"
    by (simp add: totalSupply_def chain_facts)
  have up: "[Suc 0..<3] = [1, 2]"
    by (simp add: upt_conv_Cons)
  note m = minted_ledger_minted [unfolded exec_mint]
  from mintWithCertification_effect [OF reachable_inv [OF chain_reachable] m]
  show "totalSupply minted_ledger = 2" "allTokens minted_ledger = [1, 2]"
    by (auto simp: t0 up chain_facts)
  then show "nextTokenId minted_ledger = 3"
    using reachable_next [OF minted_reachable] by simp
  from mintWithCertification_quiet [OF example_quiet m]
  show "owners minted_ledger t = (if 1 \<le> t \<and> t < 3 then 7 else 0)"
    by (auto simp: chain_facts)
  note fr = mintWithCertification_frame [OF example_quiet m]
  have same: "isProducer minted_ledger = isProducer chain_ledger"
    "roles minted_ledger = roles chain_ledger" "paused minted_ledger = paused chain_ledger"
    "isRetired minted_ledger = isRetired chain_ledger"
    "certificationHashUsed minted_ledger = (certificationHashUsed chain_ledger)(0xAA := True)"
    by (subst fr, simp)+
  show "isProducer minted_ledger 7" "hasRole minted_ledger CITY_ADMIN_ROLE 5"
    "hasRole minted_ledger MAIN_ADMIN_ROLE 1" "\<not> paused minted_ledger"
    "certificationHashUsed minted_ledger x = (x = 0xAA)" "\<not> isRetired minted_ledger t"
    using chain_facts by (simp_all add: same hasRole_def)
qed

text \<open>A producer contract that passes its credits on.\<close>

lemma transferFrom_by_owner:
  assumes "to \<noteq> 0" "from \<noteq> 0" "from \<noteq> to" "\<not> paused s" "owners s t = from"
    "\<not> isRetired s t" "(balances s to + 1) mod 2 ^ 256 \<noteq> 0"
  shows "\<exists>s1. transferFrom s from from to t = Inr s1"
  using assms by (simp add: transferFrom_def update_defs isAuthorized_def Let_def)

lemma relay_recover: "recover relay_env d example_signature = Inr 5"
  by (simp add: recover_def tryRecover_vrs_def relay_env_def example_signature_def
      be_nat_zeros SECP256K1_HALF_N_def)

lemma relayed_ledger_minted:
  "exec 1 relay_env chain_ledger 8 20 (MintWithCertification 7 1 0xAA example_signature) =
     Inr relayed_ledger"
  "owners relayed_ledger 1 = 6"
proof -
  let ?sh = "chain_ledger\<lparr>certificationHashUsed := (certificationHashUsed chain_ledger)(0xAA := True)\<rparr>"
  let ?sa = "mint_token 7 ?sh"
  have m: "internal_mint ?sh 7 (nextTokenId ?sh) = Inr ?sa"
    by (rule internal_mint_ready) (simp_all add: chain_facts)
  have a: "owners ?sa 1 = 7" "\<not> paused ?sa" "\<not> isRetired ?sa 1" "balances ?sa 6 = 0"
    "nextTokenId ?sa = 1"
    by (simp_all add: mint_token_def chain_facts)
  have "\<exists>sb. transferFrom ?sa 7 7 6 1 = Inr sb"
    using a(1-3) by (intro transferFrom_by_owner) (simp_all add: a(4))
  then obtain sb where tr: "transferFrom ?sa 7 7 6 1 = Inr sb"
    by blast
  note e = Enumerable_update_Inr [OF internal_update_Inr(3) [OF transferFrom_Inr(2) [OF tr]]]
  have own: "owners sb 1 = 6"
    by (simp add: e(3))
  have "nextTokenId sb = nextTokenId ?sa"
    by (subst transferFrom_frame [OF tr]) simp
  then have nx: "nextTokenId sb = 1"
    by (simp add: a(5))
  have check: "checkOnERC721Received (reentry_at 1 relay_env) relay_env ?sa 20 8 0 7 1 = Inr sb"
    using tr by (simp add: checkOnERC721Received_def relay_env_def relay_def)
  let ?s2 = "sb\<lparr>tokenCertifications := (tokenCertifications sb)(1 :=
          \<lparr>producer = 7, certifier = 5, timestamp = 20, metadata = [],
           certificationHash = 0xAA\<rparr>), nextTokenId := 2\<rparr>"
  have n1: "nextTokenId ?sh = 1"
    by (simp add: chain_facts)
  have step: "mintStep (reentry_at 1 relay_env) relay_env 8 7 5 20 0xAA ?sh = Inr ?s2"
    using m check unfolding n1
    by (simp add: mintStep_def internal_safeMint_def Let_def nx UINT256_MAX_def chain_facts)
  have loop: "mintLoop (reentry_at 1 relay_env) relay_env 8 7 5 20 0xAA (Suc 0) ?sh = Inr ?s2"
    unfolding mintLoop_Suc step by simp
  let ?s1 = "?s2\<lparr>events := events ?s2 @ [CreditsIssued 7 1 1 1 0xAA]\<rparr>"
  have mint: "mintWithCertification (reentry_at 1 relay_env) relay_env chain_ledger 8 20 7 1 0xAA
      example_signature = Inr ?s1"
    using loop
    by (simp add: mintWithCertification_unfold chain_facts relay_recover UINT256_MAX_def)
  then have eq: "relayed_ledger = ?s1"
    by (simp add: relayed_ledger_def exec_mint)
  show "exec 1 relay_env chain_ledger 8 20 (MintWithCertification 7 1 0xAA example_signature) =
     Inr relayed_ledger"
    unfolding eq exec_mint by (rule mint)
  show "owners relayed_ledger 1 = 6"
    unfolding eq using own by simp
qed

text \<open>Claim C7. In a reachable ledger, a \<open>mintWithCertification\<close> that commits had a
  signature recovering to a holder of \<open>CITY_ADMIN_ROLE\<close>, and it creates exactly
  \<open>amount\<close> tokens numbered from the total supply plus one upwards without a gap (so
  \<open>1, \<dots>, amount\<close> on a fresh ledger), none of which existed before. Each carries the
  certification record with producer \<open>to\<close>, the recovered certifier and the shared
  certification hash, and no other record changes. The call ends by emitting
  \<open>CreditsIssued(to, amount, firstId, lastId, certificationHash)\<close>. The recipient is called
  after each token is created: when it takes the tokens quietly (an account without code,
  or a contract whose hook accepts and calls nothing), each new token is owned by \<open>to\<close>
  when the call returns, no other token changes owner, and the call emits exactly one
  \<open>Transfer\<close> per token before \<open>CreditsIssued\<close>. A recipient contract that calls back into
  the ledger may have passed its new tokens on by then.\<close>

theorem mint_issues_contiguous_certified_credits:
  assumes "reachable E s"
    and "exec d E s sender now (MintWithCertification to amount h sig) = Inr s1"
  shows "\<exists>cert. recover E (certification_digest E to amount h) sig = Inr cert \<and>
     hasRole s CITY_ADMIN_ROLE cert \<and>
     totalSupply s1 = totalSupply s + amount \<and>
     allTokens s1 = allTokens s @ [totalSupply s + 1..<totalSupply s + 1 + amount] \<and>
     map (owners s) [totalSupply s + 1..<totalSupply s + 1 + amount] = replicate amount 0 \<and>
     (\<forall>id. tokenCertifications s1 id =
        (if totalSupply s + 1 \<le> id \<and> id < totalSupply s + 1 + amount
         then \<lparr>producer = to, certifier = cert, timestamp = now, metadata = [],
               certificationHash = h\<rparr>
         else tokenCertifications s id)) \<and>
     (\<exists>evs. events s1 = events s @ evs @
         [CreditsIssued to amount (totalSupply s + 1) (totalSupply s + amount) h]) \<and>
     (accepts_quietly (reentry_at d E) E to \<longrightarrow>
        (\<forall>id. owners s1 id =
           (if totalSupply s + 1 \<le> id \<and> id < totalSupply s + 1 + amount then to
            else owners s id)) \<and>
        events s1 = events s @ map (Transfer 0 to) [totalSupply s + 1..<totalSupply s + 1 + amount]
                    @ [CreditsIssued to amount (totalSupply s + 1) (totalSupply s + amount) h])"
proof -
  note m = assms(2) [unfolded exec_mint]
  have n: "nextTokenId s = totalSupply s + 1"
    using assms(1) by (rule reachable_next)
  from mintWithCertification_effect [OF reachable_inv [OF assms(1)] m]
  obtain cert where c: "recover E (certification_digest E to amount h) sig = Inr cert \<and>
     hasRole s CITY_ADMIN_ROLE cert \<and>
     totalSupply s1 = totalSupply s + amount \<and>
     allTokens s1 = allTokens s @ [totalSupply s + 1..<totalSupply s + 1 + amount] \<and>
     map (owners s) [totalSupply s + 1..<totalSupply s + 1 + amount] = replicate amount 0 \<and>
     (\<forall>id. tokenCertifications s1 id =
        (if totalSupply s + 1 \<le> id \<and> id < totalSupply s + 1 + amount
         then \<lparr>producer = to, certifier = cert, timestamp = now, metadata = [],
               certificationHash = h\<rparr>
         else tokenCertifications s id)) \<and>
     (\<exists>evs. events s1 = events s @ evs @
         [CreditsIssued to amount (totalSupply s + 1) (totalSupply s + amount) h])"
    by blast
  have "(\<forall>id. owners s1 id =
           (if totalSupply s + 1 \<le> id \<and> id < totalSupply s + 1 + amount then to
            else owners s id)) \<and>
        events s1 = events s @ map (Transfer 0 to) [totalSupply s + 1..<totalSupply s + 1 + amount]
                    @ [CreditsIssued to amount (totalSupply s + 1) (totalSupply s + amount) h]"
    if "accepts_quietly (reentry_at d E) E to"
    using mintWithCertification_quiet [OF that m] by (simp add: n)
  with c show ?thesis
    by blast
qed

theorem mint_issues_contiguous_certified_credits_witness:
  "reachable example_env chain_ledger \<and> totalSupply chain_ledger = 0 \<and>
   exec 0 example_env chain_ledger 8 20 (MintWithCertification 7 2 0xAA example_signature) =
     Inr minted_ledger \<and>
   accepts_quietly (reentry_at 0 example_env) example_env 7 \<and>
   totalSupply minted_ledger = 2 \<and> allTokens minted_ledger = [1, 2] \<and>
   owners minted_ledger 1 = 7 \<and> owners minted_ledger 2 = 7 \<and> owners minted_ledger 3 = 0 \<and>
   tokenCertifications minted_ledger 1 =
     \<lparr>producer = 7, certifier = 5, timestamp = 20, metadata = [], certificationHash = 0xAA\<rparr> \<and>
   tokenCertifications minted_ledger 2 =
     \<lparr>producer = 7, certifier = 5, timestamp = 20, metadata = [], certificationHash = 0xAA\<rparr> \<and>
   last (events minted_ledger) = CreditsIssued 7 2 1 2 0xAA"
proof -
  have t0: "totalSupply chain_ledger = 0"
    by (simp add: totalSupply_def chain_facts)
  from mint_issues_contiguous_certified_credits [OF chain_reachable minted_ledger_minted]
  obtain cert evs where c: "recover example_env (certification_digest example_env 7 2 0xAA)
      example_signature = Inr cert"
    and f: "totalSupply minted_ledger = totalSupply chain_ledger + 2"
      "allTokens minted_ledger = allTokens chain_ledger @ [totalSupply chain_ledger + 1..<totalSupply chain_ledger + 1 + 2]"
      "\<forall>id. tokenCertifications minted_ledger id =
        (if totalSupply chain_ledger + 1 \<le> id \<and> id < totalSupply chain_ledger + 1 + 2
         then \<lparr>producer = 7, certifier = cert, timestamp = 20, metadata = [],
               certificationHash = 0xAA\<rparr>
         else tokenCertifications chain_ledger id)"
      "events minted_ledger = events chain_ledger @ evs
                 @ [CreditsIssued 7 2 (totalSupply chain_ledger + 1) (totalSupply chain_ledger + 2) 0xAA]"
    and q: "accepts_quietly (reentry_at 0 example_env) example_env 7 \<longrightarrow>
      (\<forall>id. owners minted_ledger id =
        (if totalSupply chain_ledger + 1 \<le> id \<and> id < totalSupply chain_ledger + 1 + 2 then 7
         else owners chain_ledger id))"
    by blast
  have cert: "cert = 5"
    using c by (simp add: example_recover)
  have "[Suc 0..<3] = [1, 2]"
    by (simp add: upt_conv_Cons)
  then show ?thesis
    using f q chain_reachable minted_ledger_minted example_quiet [of "reentry_at 0 example_env" 7]
    by (simp add: t0 cert chain_facts)
qed

text \<open>The claim as the spec words it fails on the owner: the producer 7 is a contract
  whose \<open>onERC721Received\<close> passes the token it is called for on to account 6. A mint of
  one credit for it commits, and when the call returns credit 1 is owned by account 6.\<close>

theorem minted_credits_owned_by_recipient_counterexample:
  "reachable relay_env chain_ledger \<and> isProducer chain_ledger 7 \<and>
   exec 1 relay_env chain_ledger 8 20 (MintWithCertification 7 1 0xAA example_signature) =
     Inr relayed_ledger \<and>
   allTokens relayed_ledger = [1] \<and> owners relayed_ledger 1 = 6 \<and> owners relayed_ledger 1 \<noteq> 7"
proof -
  have t0: "totalSupply chain_ledger = 0"
    by (simp add: totalSupply_def chain_facts)
  from mintWithCertification_effect [OF reachable_inv [OF chain_reachable]
      relayed_ledger_minted(1) [unfolded exec_mint]]
  have "allTokens relayed_ledger = [1]"
    by (auto simp: t0 chain_facts)
  then show ?thesis
    using chain_reachable relayed_ledger_minted by (simp add: chain_facts)
qed

subsection \<open>Token ids and the total supply\<close>
















lemma retired_ledger_retired: "retire minted_ledger 7 30 1 = Inr retired_ledger"
  by (simp add: retired_ledger_def retire_def internal_ownerOf_def minted_facts exec_def)




subsection \<open>Replay of a certification\<close>

text \<open>No receiver is called before the certification hash of the mint is marked used: a
  mint goes the same way on the platform whose receivers revert when they find the hash
  unmarked.\<close>

lemma after_marking_crypto:
  "recover (after_marking h E) d sig = recover E d sig"
  "certification_digest (after_marking h E) to amount h' = certification_digest E to amount h'"
  by (simp_all add: after_marking_def recover_def tryRecover_vrs_def certification_digest_def
      toEthSignedMessageHash_def)

lemma check_marked:
  assumes "agree_when_marked h R R'" "certificationHashUsed s h"
  shows "checkOnERC721Received R E s now operator from to t =
         checkOnERC721Received R' (after_marking h E) s now operator from to t"
proof (cases "code E to")
  case None
  then show ?thesis
    by (simp add: checkOnERC721Received_def after_marking_def)
next
  case (Some hook)
  show ?thesis
  proof (cases R)
    case None
    then have "R' = None"
      using assms(1) by (simp add: agree_when_marked_def)
    then show ?thesis
      using None Some by (simp add: checkOnERC721Received_def after_marking_def)
  next
    case (Some f)
    then obtain f' where f': "R' = Some f'"
      using assms(1) by (auto simp: agree_when_marked_def)
    have "f s now calls = f' s now calls" for calls
      using assms Some f' by (simp add: agree_when_marked_def)
    then show ?thesis
      using Some f' \<open>code E to = Some hook\<close> assms(2)
      by (simp add: checkOnERC721Received_def after_marking_def
          split: prod.splits hook_answer.splits)
  qed
qed

lemma check_marked_kept:
  assumes "hooks_keep grows R" "certificationHashUsed s h"
    and "checkOnERC721Received R E s now operator from to t = Inr s1"
  shows "certificationHashUsed s1 h"
proof -
  have "grows s s1"
    using assms(1) grows_refl assms(3) by (rule check_kept)
  then show ?thesis
    using assms(2) by (simp add: grows_def)
qed

lemma mintLoop_marked:
  assumes "agree_when_marked h R R'" "hooks_keep grows R"
  shows "certificationHashUsed s h \<Longrightarrow>
     mintLoop R E sender to cert now h' n s =
     mintLoop R' (after_marking h E) sender to cert now h' n s"
proof (induction n arbitrary: s)
  case 0
  show ?case by simp
next
  case (Suc n)
  show ?case
  proof (cases "internal_mint s to (nextTokenId s)")
    case (Inl e)
    then show ?thesis
      by (simp add: mintLoop_Suc mintStep_def internal_safeMint_def)
  next
    case (Inr sa)
    have "certificationHashUsed sa = certificationHashUsed s"
      by (subst internal_mint_frame(1) [OF Inr]) simp
    then have ma: "certificationHashUsed sa h"
      using Suc.prems by simp
    note c = check_marked [OF assms(1) ma, of E now sender 0 to "nextTokenId s"]
    show ?thesis
    proof (cases "checkOnERC721Received R E sa now sender 0 to (nextTokenId s)")
      case (Inl e)
      then show ?thesis
        using Inr c by (simp add: mintLoop_Suc mintStep_def internal_safeMint_def)
    next
      case sb: (Inr sb)
      have mb: "certificationHashUsed sb h"
        using assms(2) ma sb by (rule check_marked_kept)
      let ?s = "sb\<lparr>tokenCertifications := (tokenCertifications sb)(nextTokenId sb :=
          \<lparr>producer = to, certifier = cert, timestamp = now, metadata = [],
           certificationHash = h'\<rparr>), nextTokenId := nextTokenId sb + 1\<rparr>"
      have "mintLoop R E sender to cert now h' n ?s =
            mintLoop R' (after_marking h E) sender to cert now h' n ?s"
        using mb by (intro Suc.IH) simp
      then show ?thesis
        using Inr sb c by (simp add: mintLoop_Suc mintStep_def internal_safeMint_def Let_def)
    qed
  qed
qed

lemma mintWithCertification_marked:
  assumes "agree_when_marked h R R'" "hooks_keep grows R"
    and "certificationHashUsed s h \<or> h' = h"
  shows "mintWithCertification R E s sender now to amount h' sig =
         mintWithCertification R' (after_marking h E) s sender now to amount h' sig"
proof -
  let ?s = "s\<lparr>certificationHashUsed := (certificationHashUsed s)(h' := True)\<rparr>"
  have "certificationHashUsed ?s h"
    using assms(3) by auto
  then have "mintLoop R E sender to cert now h' amount ?s =
        mintLoop R' (after_marking h E) sender to cert now h' amount ?s" for cert
    by (rule mintLoop_marked [OF assms(1,2)])
  then show ?thesis
    by (simp add: mintWithCertification_unfold after_marking_crypto split: sum.splits)
qed

lemma exec_with_marked:
  assumes "agree_when_marked h R R'" "hooks_keep grows R" "certificationHashUsed s h"
  shows "exec_with R E s sender now c = exec_with R' (after_marking h E) s sender now c"
proof (cases c)
  case (MintWithCertification dst amount h' sig)
  then show ?thesis
    using mintWithCertification_marked [OF assms(1,2), of s h'] assms(3) by simp
next
  case (SafeTransferFrom src dst t)
  show ?thesis
  proof (cases "transferFrom s sender src dst t")
    case (Inl e)
    then show ?thesis
      by (simp add: SafeTransferFrom safeTransferFrom_def)
  next
    case (Inr sa)
    have "certificationHashUsed sa = certificationHashUsed s"
      by (subst transferFrom_frame [OF Inr]) simp
    then have "certificationHashUsed sa h"
      using assms(3) by simp
    from check_marked [OF assms(1) this] show ?thesis
      using Inr by (simp add: SafeTransferFrom safeTransferFrom_def)
  qed
qed simp_all

lemma run_calls_marked:
  assumes same: "\<And>s sender c. certificationHashUsed s h \<Longrightarrow> ex s sender now c = ex' s sender now c"
    and kept: "\<And>s sender c s1. certificationHashUsed s h \<Longrightarrow> ex s sender now c = Inr s1 \<Longrightarrow>
        certificationHashUsed s1 h"
  shows "certificationHashUsed s h \<Longrightarrow> run_calls ex s now calls = run_calls ex' s now calls"
proof (induction calls arbitrary: s)
  case Nil
  show ?case by simp
next
  case (Cons rc calls)
  obtain sender c where rc: "rc = (sender, c)"
    by (cases rc)
  note e = same [OF Cons.prems, of sender c]
  show ?case
  proof (cases "ex s sender now c")
    case (Inl err)
    moreover have "ex' s sender now c = Inl err"
      using e Inl by simp
    ultimately show ?thesis
      using Cons.IH [OF Cons.prems] by (simp add: rc)
  next
    case (Inr s1)
    have "certificationHashUsed s1 h"
      using Cons.prems Inr by (rule kept)
    moreover have "ex' s sender now c = Inr s1"
      using e Inr by simp
    ultimately show ?thesis
      using Inr Cons.IH [of s1] Cons.IH [OF Cons.prems] by (simp add: rc)
  qed
qed

lemma exec_with_grows:
  "exec_with (reentry_at d E) E s sender now c = Inr s1 \<Longrightarrow> grows s s1"
  using exec_grows [of d E s sender now c s1] by (simp add: exec_def)

lemma reentry_at_marked: "agree_when_marked h (reentry_at d E) (reentry_at d (after_marking h E))"
proof (induction d)
  case 0
  show ?case by (simp add: agree_when_marked_def)
next
  case (Suc d)
  have "run_calls (exec_with (reentry_at d E) E) s now calls =
        run_calls (exec_with (reentry_at d (after_marking h E)) (after_marking h E)) s now calls"
    if "certificationHashUsed s h" for s now calls
  proof (rule run_calls_marked [OF _ _ that])
    show "exec_with (reentry_at d E) E s sender now c =
          exec_with (reentry_at d (after_marking h E)) (after_marking h E) s sender now c"
      if "certificationHashUsed s h" for s sender c
      using Suc hooks_grow that by (rule exec_with_marked)
    show "certificationHashUsed s1 h"
      if "certificationHashUsed s h" "exec_with (reentry_at d E) E s sender now c = Inr s1"
      for s sender c s1
      using exec_with_grows [OF that(2)] that(1) by (simp add: grows_def)
  qed
  then show ?case
    by (simp add: agree_when_marked_def)
qed

lemma mint_after_marking:
  "exec d E s sender now (MintWithCertification to amount h sig) =
   exec d (after_marking h E) s sender now (MintWithCertification to amount h sig)"
  unfolding exec_mint
  by (rule mintWithCertification_marked [OF reentry_at_marked hooks_grow]) simp

lemma marked_mint_fails:
  "certificationHashUsed s h \<Longrightarrow> isl (mintWithCertification R E s sender now to amount h sig)"
  by (simp add: mintWithCertification_unfold)

text \<open>Claim C1. In a reachable ledger, a first \<open>mintWithCertification\<close> that is well-formed
  (not paused, a registered non-zero producer that takes the tokens quietly, an amount
  from 1 to 1000, an unused hash, a signature recovering to a city admin, ids left below
  \<open>2 ^ 256\<close>) commits. Whenever a mint commits, whatever its recipient does when called, it
  has marked the hash used and appended the \<open>amount\<close> new tokens \<open>N, \<dots>, N + amount - 1\<close>
  (\<open>N\<close> the next token id); they are all owned by \<open>to\<close> on return when the recipient
  takes them quietly. The hash stays marked through all later transactions, and a second
  call that presents the same hash and is otherwise well-formed reverts with
  \<open>Certification hash already used\<close> (the spec's \<open>HashReused\<close>) and so leaves the ledger,
  its token count and every owner, as it was. The hash is marked before any token is
  created: the recipient, called once per token, is never called before the hash is
  marked (the mint goes the same way when every receiver reverts on finding the hash
  unmarked), and in a state where the hash is marked every mint with that hash fails,
  one made by the recipient from inside the first call included.\<close>

theorem duplicate_certification_rejected:
  assumes "reachable E s"
  shows
   "(\<not> paused s \<and> to \<noteq> 0 \<and> 0 < amount \<and> amount \<le> 1000 \<and> isProducer s to \<and>
     \<not> certificationHashUsed s h \<and>
     recover E (certification_digest E to amount h) sig = Inr cert \<and>
     hasRole s CITY_ADMIN_ROLE cert \<and> accepts_quietly (reentry_at d E) E to \<and>
     nextTokenId s + amount \<le> UINT256_MAX \<longrightarrow>
       (\<exists>s1. exec d E s sender now (MintWithCertification to amount h sig) = Inr s1)) \<and>
    (exec d E s sender now (MintWithCertification to amount h sig) = Inr s1 \<longrightarrow>
       certificationHashUsed s1 h \<and>
       totalSupply s1 = totalSupply s + amount \<and>
       allTokens s1 = allTokens s @ [nextTokenId s..<nextTokenId s + amount] \<and>
       (accepts_quietly (reentry_at d E) E to \<longrightarrow>
          map (owners s1) [nextTokenId s..<nextTokenId s + amount] = replicate amount to) \<and>
       certificationHashUsed (run d2 E s1 txs) h \<and>
       (\<not> paused (run d2 E s1 txs) \<and> to2 \<noteq> 0 \<and> 0 < amount2 \<and> amount2 \<le> 1000 \<and>
        isProducer (run d2 E s1 txs) to2 \<longrightarrow>
          mintWithCertification R E (run d2 E s1 txs) sender2 now2 to2 amount2 h sig2 =
            Inl (Require ''Certification hash already used'') \<and>
          run d3 E (run d2 E s1 txs) [(sender2, now2, MintWithCertification to2 amount2 h sig2)] =
            run d2 E s1 txs)) \<and>
    (certificationHashUsed s' h \<longrightarrow>
       isl (mintWithCertification R E s' sender2 now2 to2 amount2 h sig2)) \<and>
    exec d E s sender now (MintWithCertification to amount h sig) =
      exec d (after_marking h E) s sender now (MintWithCertification to amount h sig)"
proof -
  note inv = reachable_inv [OF assms]
  have n: "nextTokenId s = totalSupply s + 1"
    using assms by (rule reachable_next)
  have first: "\<exists>s1. exec d E s sender now (MintWithCertification to amount h sig) = Inr s1"
    if "\<not> paused s" "to \<noteq> 0" "0 < amount" "amount \<le> 1000" "isProducer s to"
      "\<not> certificationHashUsed s h"
      "recover E (certification_digest E to amount h) sig = Inr cert"
      "hasRole s CITY_ADMIN_ROLE cert" "accepts_quietly (reentry_at d E) E to"
      "nextTokenId s + amount \<le> UINT256_MAX"
    unfolding exec_mint using inv that by (rule mintWithCertification_succeeds)
  have eff: "certificationHashUsed s1 h \<and>
       totalSupply s1 = totalSupply s + amount \<and>
       allTokens s1 = allTokens s @ [nextTokenId s..<nextTokenId s + amount] \<and>
       (accepts_quietly (reentry_at d E) E to \<longrightarrow>
          map (owners s1) [nextTokenId s..<nextTokenId s + amount] = replicate amount to) \<and>
       certificationHashUsed (run d2 E s1 txs) h \<and>
       (\<not> paused (run d2 E s1 txs) \<and> to2 \<noteq> 0 \<and> 0 < amount2 \<and> amount2 \<le> 1000 \<and>
        isProducer (run d2 E s1 txs) to2 \<longrightarrow>
          mintWithCertification R E (run d2 E s1 txs) sender2 now2 to2 amount2 h sig2 =
            Inl (Require ''Certification hash already used'') \<and>
          run d3 E (run d2 E s1 txs) [(sender2, now2, MintWithCertification to2 amount2 h sig2)] =
            run d2 E s1 txs)"
    if m: "exec d E s sender now (MintWithCertification to amount h sig) = Inr s1"
  proof -
    note m' = m [unfolded exec_mint]
    from mintWithCertification_effect [OF inv m'] have
      f: "totalSupply s1 = totalSupply s + amount"
        "allTokens s1 = allTokens s @ [totalSupply s + 1..<totalSupply s + 1 + amount]"
        "certificationHashUsed s1 h"
      by blast+
    have own: "map (owners s1) [nextTokenId s..<nextTokenId s + amount] = replicate amount to"
      if "accepts_quietly (reentry_at d E) E to"
    proof -
      from mintWithCertification_quiet [OF that m'] have "\<forall>id. owners s1 id =
          (if nextTokenId s \<le> id \<and> id < nextTokenId s + amount then to else owners s id)"
        by simp
      then show ?thesis
        by (rule map_owners_minted)
    qed
    let ?s = "run d2 E s1 txs"
    have later: "certificationHashUsed ?s h"
      using run_grows [of s1 d2 E txs] f(3) by (simp add: grows_def)
    have second: "mintWithCertification R E ?s sender2 now2 to2 amount2 h sig2 =
            Inl (Require ''Certification hash already used'') \<and>
          run d3 E ?s [(sender2, now2, MintWithCertification to2 amount2 h sig2)] = ?s"
      if "\<not> paused ?s" "to2 \<noteq> 0" "0 < amount2" "amount2 \<le> 1000" "isProducer ?s to2"
    proof -
      have e: "mintWithCertification R E ?s sender2 now2 to2 amount2 h sig2 =
            Inl (Require ''Certification hash already used'')" for R
        using that later by (simp add: mintWithCertification_unfold)
      then show ?thesis
        by (simp add: exec_mint)
    qed
    show ?thesis
      using f own later second by (simp add: n)
  qed
  have marked: "isl (mintWithCertification R E s' sender2 now2 to2 amount2 h sig2)"
    if "certificationHashUsed s' h"
    using that by (rule marked_mint_fails)
  show ?thesis
    using first eff marked mint_after_marking [of d E s sender now to amount h sig] by blast
qed

theorem duplicate_certification_rejected_witness:
  "reachable example_env chain_ledger \<and> \<not> paused chain_ledger \<and> isProducer chain_ledger 7 \<and>
   \<not> certificationHashUsed chain_ledger 0xAA \<and>
   recover example_env (certification_digest example_env 7 2 0xAA) example_signature = Inr 5 \<and>
   hasRole chain_ledger CITY_ADMIN_ROLE 5 \<and>
   accepts_quietly (reentry_at 0 example_env) example_env 7 \<and>
   exec 0 example_env chain_ledger 8 20 (MintWithCertification 7 2 0xAA example_signature) =
     Inr minted_ledger \<and>
   certificationHashUsed minted_ledger 0xAA \<and>
   allTokens minted_ledger = [1, 2] \<and> map (owners minted_ledger) [1, 2] = [7, 7] \<and>
   \<not> paused minted_ledger \<and> isProducer minted_ledger 7 \<and>
   mintWithCertification None example_env minted_ledger 9 25 7 1 0xAA [] =
     Inl (Require ''Certification hash already used'') \<and>
   run 0 example_env minted_ledger [(9, 25, MintWithCertification 7 1 0xAA [])] = minted_ledger \<and>
   isl (mintWithCertification None example_env minted_ledger 9 25 7 1 0xAA [])"
proof -
  note t = duplicate_certification_rejected [OF chain_reachable, where d = 0 and sender = 8
      and now = 20 and to = 7 and amount = 2 and h = "0xAA" and sig = example_signature
      and cert = 5 and ?s1.0 = minted_ledger and ?d2.0 = 0 and txs = "[]" and R = None
      and ?sender2.0 = 9 and ?now2.0 = 25 and ?to2.0 = 7 and ?amount2.0 = 1 and ?sig2.0 = "[]"
      and ?d3.0 = 0 and s' = minted_ledger]
  note q = example_quiet [of "reentry_at 0 example_env" 7]
  have up: "[Suc 0..<3] = [1, 2]"
    by (simp add: upt_conv_Cons)
  have rep: "replicate 2 (7::address) = [7, 7]"
    by (simp add: numeral_2_eq_2)
  have 1: "certificationHashUsed minted_ledger 0xAA" "allTokens minted_ledger = [1, 2]"
    "map (owners minted_ledger) [1, 2] = [7, 7]"
    "mintWithCertification None example_env minted_ledger 9 25 7 1 0xAA [] =
       Inl (Require ''Certification hash already used'')"
    "run 0 example_env minted_ledger [(9, 25, MintWithCertification 7 1 0xAA [])] = minted_ledger"
    using t minted_ledger_minted q
    by (simp_all add: chain_facts minted_facts up rep)
  have 2: "isl (mintWithCertification None example_env minted_ledger 9 25 7 1 0xAA [])"
    using t 1(1) by blast
  show ?thesis
    using chain_reachable minted_ledger_minted q 1 2
    by (simp add: chain_facts minted_facts example_recover)
qed

subsection \<open>The appointment chain\<close>

lemma run_reverted:
  "exec d E s sender now c = Inl e \<Longrightarrow> run d E s [(sender, now, c)] = s"
  by simp

text \<open>Claim C5. Each appointment is guarded by the capability one level up:
  \<open>appointCountryAdmin\<close> by \<open>MAIN_ADMIN_ROLE\<close>, \<open>appointStateAdmin\<close> by
  \<open>COUNTRY_ADMIN_ROLE\<close>, \<open>appointCityAdmin\<close> by \<open>STATE_ADMIN_ROLE\<close> and
  \<open>registerProducer\<close> by \<open>CITY_ADMIN_ROLE\<close>. A caller without that capability is
  rejected with the access-control error naming the caller and the missing role (the
  spec's \<open>InsufficientCapability\<close>), so a call can only succeed for a holder; the rejected
  transaction leaves the ledger, and with it every role and jurisdiction id, as it was.\<close>

theorem appointment_capability_chain:
  "(\<not> hasRole s MAIN_ADMIN_ROLE caller \<longrightarrow>
      appointCountryAdmin s caller admin jid =
        Inl (AccessControlUnauthorizedAccount caller MAIN_ADMIN_ROLE) \<and>
      run d E s [(caller, now, AppointCountryAdmin admin jid)] = s) \<and>
   (\<not> hasRole s COUNTRY_ADMIN_ROLE caller \<longrightarrow>
      appointStateAdmin s caller admin jid =
        Inl (AccessControlUnauthorizedAccount caller COUNTRY_ADMIN_ROLE) \<and>
      run d E s [(caller, now, AppointStateAdmin admin jid)] = s) \<and>
   (\<not> hasRole s STATE_ADMIN_ROLE caller \<longrightarrow>
      appointCityAdmin s caller admin jid =
        Inl (AccessControlUnauthorizedAccount caller STATE_ADMIN_ROLE) \<and>
      run d E s [(caller, now, AppointCityAdmin admin jid)] = s) \<and>
   (\<not> hasRole s CITY_ADMIN_ROLE caller \<longrightarrow>
      registerProducer s caller admin =
        Inl (AccessControlUnauthorizedAccount caller CITY_ADMIN_ROLE) \<and>
      run d E s [(caller, now, RegisterProducer admin)] = s)"
  by (simp add: appointCountryAdmin_def appointStateAdmin_def appointCityAdmin_def
      registerProducer_def checkRole_def exec_def)

theorem appointment_capability_chain_witness:
  "appointCountryAdmin deployed_ledger 8 2 1 =
     Inl (AccessControlUnauthorizedAccount 8 MAIN_ADMIN_ROLE) \<and>
   appointStateAdmin deployed_ledger 8 2 1 =
     Inl (AccessControlUnauthorizedAccount 8 COUNTRY_ADMIN_ROLE) \<and>
   appointCityAdmin deployed_ledger 8 2 1 =
     Inl (AccessControlUnauthorizedAccount 8 STATE_ADMIN_ROLE) \<and>
   registerProducer deployed_ledger 8 2 =
     Inl (AccessControlUnauthorizedAccount 8 CITY_ADMIN_ROLE)"
proof -
  have lacking: "\<not> hasRole deployed_ledger r 8" for r
    by (simp add: deployed_ledger_def hasRole_def internal_grantRole_def initial_storage_def)
  show ?thesis
    using appointment_capability_chain [of deployed_ledger 8 2 1 0 example_env 0] lacking
    by blast
qed

text \<open>Read the other way round: an appointment that commits was sent by a holder of the
  required capability.\<close>

lemma appointment_success_needs_capability:
  "(appointCountryAdmin s caller admin jid = Inr s1 \<longrightarrow> hasRole s MAIN_ADMIN_ROLE caller) \<and>
   (appointStateAdmin s caller admin jid = Inr s1 \<longrightarrow> hasRole s COUNTRY_ADMIN_ROLE caller) \<and>
   (appointCityAdmin s caller admin jid = Inr s1 \<longrightarrow> hasRole s STATE_ADMIN_ROLE caller) \<and>
   (registerProducer s caller admin = Inr s1 \<longrightarrow> hasRole s CITY_ADMIN_ROLE caller)"
  by (simp add: appointCountryAdmin_def appointStateAdmin_def appointCityAdmin_def
      registerProducer_def checkRole_def split: if_splits)

subsection \<open>Pausing\<close>

lemmas minted_frame =
  mintWithCertification_frame [OF example_quiet minted_ledger_minted [unfolded exec_mint]]

lemma paused_ledger_eq:
  "paused_ledger = minted_ledger\<lparr>paused := True, events := events minted_ledger @ [Paused 1]\<rparr>"
  using minted_facts(7,8)
  by (simp add: paused_ledger_def pause_def checkRole_def internal_pause_def exec_def)

lemma paused_reachable: "reachable example_env paused_ledger"
  unfolding paused_ledger_def
  by (rule reachable_run [OF minted_reachable]) (simp add: valid_txs_def)

lemma pause_independent_registry:
  "pause_independent (\<lambda>s. retire s sender now t)"
  "pause_independent (\<lambda>s. appointCountryAdmin s sender a i)"
  "pause_independent (\<lambda>s. appointStateAdmin s sender a i)"
  "pause_independent (\<lambda>s. appointCityAdmin s sender a i)"
  "pause_independent (\<lambda>s. registerProducer s sender a)"
  "pause_independent (\<lambda>s. registerBuyer s sender)"
  "pause_independent (\<lambda>s. registerAuditor s sender a)"
  by (simp_all add: pause_independent_def retire_def appointCountryAdmin_def
      appointStateAdmin_def appointCityAdmin_def registerProducer_def registerBuyer_def
      registerAuditor_def checkRole_def hasRole_def internal_grantRole_def internal_ownerOf_def
      Let_def)

lemma paused_blocks_mint:
  "paused s \<Longrightarrow> mintWithCertification R E s sender now to amount h sig = Inl EnforcedPause"
  by (simp add: mintWithCertification_def)

lemma paused_blocks_transfer:
  "paused s \<Longrightarrow> to \<noteq> 0 \<Longrightarrow> transferFrom s sender src to t = Inl EnforcedPause"
  "paused s \<Longrightarrow> to \<noteq> 0 \<Longrightarrow> safeTransferFrom R E s now sender src to t = Inl EnforcedPause"
  by (simp_all add: safeTransferFrom_def transferFrom_def internal_update_def)

lemma paused_until_unpause:
  assumes "paused s" "exec_with R E s caller now c = Inr s1" "\<not> paused s1"
  shows "c = Unpause \<and> hasRole s MAIN_ADMIN_ROLE caller"
proof (cases c)
  case (MintWithCertification dst amount h sig)
  then show ?thesis
    using assms(1,2) by (simp add: paused_blocks_mint)
next
  case (TransferFrom src dst t)
  then have "transferFrom s caller src dst t = Inr s1"
    using assms(2) by simp
  from internal_update_Inr(1) [OF transferFrom_Inr(2) [OF this]] show ?thesis
    using assms(1) by simp
next
  case (SafeTransferFrom src dst t)
  then have "safeTransferFrom R E s now caller src dst t = Inr s1"
    using assms(2) by simp
  from safeTransferFrom_Inr [OF this] obtain sa where "transferFrom s caller src dst t = Inr sa"
    by blast
  from internal_update_Inr(1) [OF transferFrom_Inr(2) [OF this]] show ?thesis
    using assms(1) by simp
qed (use assms in \<open>auto simp: registry_defs Let_def split: if_splits sum.splits\<close>)

text \<open>Claim C2, as the code has it. While the ledger is paused, \<open>mintWithCertification\<close>
  and every transfer to a non-zero recipient revert with \<open>EnforcedPause\<close> (the spec's
  \<open>Paused\<close>), and a reverted call changes nothing; a transfer to the zero address is
  rejected as an invalid receiver whether or not the ledger is paused. The ledger stays
  paused until a holder of \<open>MAIN_ADMIN_ROLE\<close> calls \<open>unpause\<close>, which such a holder can
  always do. Retirement, the three appointments and the three registrations are not
  gated: each gives the same outcome whatever the pause flag is, and leaves the flag as
  it was.\<close>

theorem pause_gates_minting_and_transfers:
  "(paused s \<longrightarrow>
      mintWithCertification R E s sender now to amount h sig = Inl EnforcedPause \<and>
      run d E s [(sender, now, MintWithCertification to amount h sig)] = s \<and>
      (to \<noteq> 0 \<longrightarrow>
         transferFrom s sender src to t = Inl EnforcedPause \<and>
         safeTransferFrom R E s now sender src to t = Inl EnforcedPause \<and>
         run d E s [(sender, now, TransferFrom src to t)] = s)) \<and>
   transferFrom s sender src 0 t = Inl (ERC721InvalidReceiver 0) \<and>
   (paused s \<and> exec d E s caller now2 c = Inr s1 \<and> \<not> paused s1 \<longrightarrow>
      c = Unpause \<and> hasRole s MAIN_ADMIN_ROLE caller) \<and>
   (paused s \<and> hasRole s MAIN_ADMIN_ROLE admin \<longrightarrow>
      unpause s admin = Inr (s\<lparr>paused := False, events := events s @ [Unpaused admin]\<rparr>)) \<and>
   pause_independent (\<lambda>s. retire s sender now t) \<and>
   pause_independent (\<lambda>s. appointCountryAdmin s sender a i) \<and>
   pause_independent (\<lambda>s. appointStateAdmin s sender a i) \<and>
   pause_independent (\<lambda>s. appointCityAdmin s sender a i) \<and>
   pause_independent (\<lambda>s. registerProducer s sender a) \<and>
   pause_independent (\<lambda>s. registerBuyer s sender) \<and>
   pause_independent (\<lambda>s. registerAuditor s sender a)"
proof -
  have zero: "transferFrom s sender src 0 t = Inl (ERC721InvalidReceiver 0)"
    by (simp add: transferFrom_def)
  have un: "unpause s admin = Inr (s\<lparr>paused := False, events := events s @ [Unpaused admin]\<rparr>)"
    if "paused s" "hasRole s MAIN_ADMIN_ROLE admin"
    using that by (simp add: unpause_def checkRole_def internal_unpause_def)
  have gated: "mintWithCertification R E s sender now to amount h sig = Inl EnforcedPause \<and>
      run d E s [(sender, now, MintWithCertification to amount h sig)] = s \<and>
      (to \<noteq> 0 \<longrightarrow>
         transferFrom s sender src to t = Inl EnforcedPause \<and>
         safeTransferFrom R E s now sender src to t = Inl EnforcedPause \<and>
         run d E s [(sender, now, TransferFrom src to t)] = s)"
    if "paused s"
    using that by (simp add: paused_blocks_mint paused_blocks_transfer exec_def)
  have until: "c = Unpause \<and> hasRole s MAIN_ADMIN_ROLE caller"
    if "paused s \<and> exec d E s caller now2 c = Inr s1 \<and> \<not> paused s1"
    using that paused_until_unpause [of s "reentry_at d E" E caller now2 c s1]
    by (simp add: exec_def)
  show ?thesis
    using zero un gated until pause_independent_registry by blast
qed

theorem pause_gates_minting_and_transfers_witness:
  "paused paused_ledger \<and>
   mintWithCertification None example_env paused_ledger 8 41 7 2 0xBB example_signature =
     Inl EnforcedPause \<and>
   transferFrom paused_ledger 7 7 8 1 = Inl EnforcedPause \<and>
   safeTransferFrom None example_env paused_ledger 41 7 7 8 1 = Inl EnforcedPause \<and>
   exec 0 example_env paused_ledger 1 42 Unpause =
     Inr (paused_ledger\<lparr>paused := False, events := events paused_ledger @ [Unpaused 1]\<rparr>) \<and>
   hasRole paused_ledger MAIN_ADMIN_ROLE 1 \<and>
   retire paused_ledger 7 41 1 =
     map_sum id (\<lambda>s1. s1\<lparr>paused := True\<rparr>) (retire (paused_ledger\<lparr>paused := False\<rparr>) 7 41 1)"
proof -
  have p: "paused paused_ledger" and m: "hasRole paused_ledger MAIN_ADMIN_ROLE 1"
    using minted_facts(7) by (simp_all add: paused_ledger_eq hasRole_def)
  have nz: "(8 :: address) \<noteq> 0"
    by simp
  note T = pause_gates_minting_and_transfers [where s = paused_ledger and E = example_env
      and R = None and d = 0 and sender = 7 and now = 41 and to = 8 and src = 7 and t = 1 and admin = 1
      and caller = 1 and ?now2.0 = 42 and c = Unpause
      and ?s1.0 = "paused_ledger\<lparr>paused := False, events := events paused_ledger @ [Unpaused 1]\<rparr>"]
  have u: "unpause paused_ledger 1 =
      Inr (paused_ledger\<lparr>paused := False, events := events paused_ledger @ [Unpaused 1]\<rparr>)"
    using T p m by blast
  have tr: "transferFrom paused_ledger 7 7 8 1 = Inl EnforcedPause"
    "safeTransferFrom None example_env paused_ledger 41 7 7 8 1 = Inl EnforcedPause"
    using T p nz by blast+
  have r: "pause_independent (\<lambda>s. retire s 7 41 1)"
    using T by blast
  have "retire (paused_ledger\<lparr>paused := False\<rparr>\<lparr>paused := True\<rparr>) 7 41 1 =
     map_sum id (\<lambda>s1. s1\<lparr>paused := True\<rparr>) (retire (paused_ledger\<lparr>paused := False\<rparr>) 7 41 1)"
    using r unfolding pause_independent_def by blast
  moreover have "paused_ledger\<lparr>paused := False\<rparr>\<lparr>paused := True\<rparr> = paused_ledger"
    using p by simp
  moreover have "mintWithCertification None example_env paused_ledger 8 41 7 2 0xBB example_signature =
     Inl EnforcedPause"
    using pause_gates_minting_and_transfers [where s = paused_ledger and E = example_env
      and R = None and sender = 8 and now = 41 and to = 7 and amount = 2 and h = "0xBB"
      and sig = example_signature] p
    by blast
  moreover have "hasRole paused_ledger MAIN_ADMIN_ROLE 1"
    using T p u by (simp add: exec_def)
  ultimately show ?thesis
    using p u tr by (simp add: exec_def)
qed

text \<open>The claim as the spec words it fails: in a paused ledger the producer retires a
  credit and the main admin appoints a country admin, and both calls commit.\<close>

theorem pause_blocks_every_entry_point_counterexample:
  "reachable example_env paused_ledger \<and> paused paused_ledger \<and>
   retire paused_ledger 7 41 1 \<noteq> Inl EnforcedPause \<and>
   \<not> isRetired paused_ledger 1 \<and>
   isRetired (run 0 example_env paused_ledger [(7, 41, Retire 1)]) 1 \<and>
   appointCountryAdmin paused_ledger 1 6 3 \<noteq> Inl EnforcedPause \<and>
   \<not> isCountryAdmin paused_ledger 6 \<and>
   isCountryAdmin (run 0 example_env paused_ledger [(1, 41, AppointCountryAdmin 6 3)]) 6"
proof -
  have own: "owners paused_ledger 1 = 7" "\<not> isRetired paused_ledger 1"
    "hasRole paused_ledger MAIN_ADMIN_ROLE 1" "paused paused_ledger"
    using minted_facts(4) [of 1] minted_facts(7,10)
    by (simp_all add: paused_ledger_eq hasRole_def)
  have c6: "\<not> isCountryAdmin paused_ledger 6"
    by (subst paused_ledger_eq, subst minted_frame) (simp add: chain_ledger_def example_defs)
  show ?thesis
    using own c6 paused_reachable
    by (simp add: retire_def internal_ownerOf_def appointCountryAdmin_def checkRole_def
        internal_grantRole_def hasRole_def Let_def exec_def)
qed

subsection \<open>Admin levels\<close>

lemma run_append: "run d E (run d E s xs) ys = run d E s (xs @ ys)"
proof (induction xs arbitrary: s)
  case Nil
  then show ?case by simp
next
  case (Cons tx xs)
  obtain sender now c where tx: "tx = (sender, now, c)"
    using prod_cases3 by blast
  show ?case
    using Cons.IH by (cases "exec d E s sender now c") (simp_all add: tx)
qed

lemma appoint_sets_flag:
  "appointCountryAdmin s caller admin i = Inr s1 \<Longrightarrow> admin \<noteq> 0 \<and> isCountryAdmin s1 admin"
  "appointStateAdmin s caller admin i = Inr s1 \<Longrightarrow> admin \<noteq> 0 \<and> isStateAdmin s1 admin"
  "appointCityAdmin s caller admin i = Inr s1 \<Longrightarrow> admin \<noteq> 0 \<and> isCityAdmin s1 admin"
  by (auto simp: appointCountryAdmin_def appointStateAdmin_def appointCityAdmin_def
      checkRole_def internal_grantRole_def Let_def split: if_splits)

text \<open>Claim C9, as the code has it. An account that has been appointed at one admin level
  cannot be appointed at that level again: whatever transactions follow the appointment,
  a later appointment of the same account at the same level, sent by a caller with the
  capability for it, reverts with \<open>Already a country admin\<close>, \<open>Already a state admin\<close>
  or \<open>Already a city admin\<close> (the spec's \<open>AlreadyHeld\<close>). The appointments check nothing
  about the other levels.\<close>

theorem reappointment_rejected:
  "(appointCountryAdmin s caller admin i = Inr s1 \<and>
    hasRole (run d E s1 txs) MAIN_ADMIN_ROLE caller2 \<longrightarrow>
      appointCountryAdmin (run d E s1 txs) caller2 admin i2 =
        Inl (Require ''Already a country admin'')) \<and>
   (appointStateAdmin s caller admin i = Inr s1 \<and>
    hasRole (run d E s1 txs) COUNTRY_ADMIN_ROLE caller2 \<longrightarrow>
      appointStateAdmin (run d E s1 txs) caller2 admin i2 =
        Inl (Require ''Already a state admin'')) \<and>
   (appointCityAdmin s caller admin i = Inr s1 \<and>
    hasRole (run d E s1 txs) STATE_ADMIN_ROLE caller2 \<longrightarrow>
      appointCityAdmin (run d E s1 txs) caller2 admin i2 =
        Inl (Require ''Already a city admin''))"
proof -
  have "appointCountryAdmin s2 caller2 admin i2 = Inl (Require ''Already a country admin'')"
    if "hasRole s2 MAIN_ADMIN_ROLE caller2" "admin \<noteq> 0" "isCountryAdmin s2 admin" for s2
    using that by (simp add: appointCountryAdmin_def checkRole_def)
  moreover have "appointStateAdmin s2 caller2 admin i2 = Inl (Require ''Already a state admin'')"
    if "hasRole s2 COUNTRY_ADMIN_ROLE caller2" "admin \<noteq> 0" "isStateAdmin s2 admin" for s2
    using that by (simp add: appointStateAdmin_def checkRole_def)
  moreover have "appointCityAdmin s2 caller2 admin i2 = Inl (Require ''Already a city admin'')"
    if "hasRole s2 STATE_ADMIN_ROLE caller2" "admin \<noteq> 0" "isCityAdmin s2 admin" for s2
    using that by (simp add: appointCityAdmin_def checkRole_def)
  ultimately show ?thesis
    using appoint_sets_flag [of s caller admin i s1] run_grows [of s1 d E txs]
    unfolding grows_def by blast
qed

theorem reappointment_rejected_witness:
  "appointCountryAdmin two_level_ledger 1 2 7 = Inl (Require ''Already a country admin'') \<and>
   appointStateAdmin two_level_ledger 2 3 5 = Inl (Require ''Already a state admin'') \<and>
   appointCityAdmin chain_ledger 3 5 8 = Inl (Require ''Already a city admin'')"
proof -
  let ?t1 = "(1, 10, AppointCountryAdmin 2 1) :: tx"
  let ?t2 = "(1, 11, AppointCountryAdmin 3 2) :: tx"
  let ?t3 = "(2, 12, AppointStateAdmin 3 9) :: tx"
  let ?u2 = "(2, 11, AppointStateAdmin 3 9) :: tx"
  let ?u3 = "(3, 12, AppointCityAdmin 5 4) :: tx"
  let ?u4 = "(5, 13, RegisterProducer 7) :: tx"
  have a1: "appointCountryAdmin deployed_ledger 1 2 1 = Inr (run 0 example_env deployed_ledger [?t1])"
    by (simp add: example_defs)
  have a2: "run 0 example_env (run 0 example_env deployed_ledger [?t1]) [?t2, ?t3] = two_level_ledger"
    unfolding run_append two_level_ledger_def by simp
  have a3: "hasRole two_level_ledger MAIN_ADMIN_ROLE 1"
    by (simp add: two_level_ledger_def example_defs)
  have b1: "appointStateAdmin (run 0 example_env deployed_ledger [?t1, ?t2]) 2 3 9 = Inr two_level_ledger"
    by (simp add: two_level_ledger_def example_defs)
  have b2: "run 0 example_env two_level_ledger [] = two_level_ledger"
    by simp
  have b3: "hasRole two_level_ledger COUNTRY_ADMIN_ROLE 2"
    by (simp add: two_level_ledger_def example_defs)
  have c1: "appointCityAdmin (run 0 example_env deployed_ledger [?t1, ?u2]) 3 5 4 =
      Inr (run 0 example_env deployed_ledger [?t1, ?u2, ?u3])"
    by (simp add: example_defs)
  have c2: "run 0 example_env (run 0 example_env deployed_ledger [?t1, ?u2, ?u3]) [?u4] = chain_ledger"
    unfolding run_append chain_ledger_def by simp
  have c3: "hasRole chain_ledger STATE_ADMIN_ROLE 3"
    by (simp add: chain_ledger_def example_defs)
  have "appointCountryAdmin two_level_ledger 1 2 7 = Inl (Require ''Already a country admin'')"
    using reappointment_rejected [where s = deployed_ledger and caller = 1 and admin = 2
        and i = 1 and ?s1.0 = "run 0 example_env deployed_ledger [?t1]" and E = example_env and d = 0
        and txs = "[?t2, ?t3]" and ?caller2.0 = 1 and ?i2.0 = 7] a1 a3
    unfolding a2 by blast
  moreover have "appointStateAdmin two_level_ledger 2 3 5 = Inl (Require ''Already a state admin'')"
    using reappointment_rejected [where s = "run 0 example_env deployed_ledger [?t1, ?t2]"
        and caller = 2 and admin = 3 and i = 9 and ?s1.0 = two_level_ledger and E = example_env and d = 0
        and txs = "[]" and ?caller2.0 = 2 and ?i2.0 = 5] b1 b3
    unfolding b2 by blast
  moreover have "appointCityAdmin chain_ledger 3 5 8 = Inl (Require ''Already a city admin'')"
    using reappointment_rejected [where s = "run 0 example_env deployed_ledger [?t1, ?u2]"
        and caller = 3 and admin = 5 and i = 4
        and ?s1.0 = "run 0 example_env deployed_ledger [?t1, ?u2, ?u3]" and E = example_env and d = 0
        and txs = "[?u4]" and ?caller2.0 = 3 and ?i2.0 = 8] c1 c3
    unfolding c2 by blast
  ultimately show ?thesis by blast
qed

text \<open>The claim as the spec words it fails: the main admin appoints accounts 2 and 3 as
  country admins, and country admin 2 then appoints account 3 as state admin. Account 3
  holds both roles, in the access-control registry and in the appointment flags.\<close>

theorem one_admin_level_per_account_counterexample:
  "reachable example_env two_level_ledger \<and>
   hasRole two_level_ledger COUNTRY_ADMIN_ROLE 3 \<and> hasRole two_level_ledger STATE_ADMIN_ROLE 3 \<and>
   isCountryAdmin two_level_ledger 3 \<and> isStateAdmin two_level_ledger 3"
proof -
  have "reachable example_env two_level_ledger"
    unfolding two_level_ledger_def
    by (rule reachable_run [OF deployed_reachable]) (simp add: valid_txs_def)
  then show ?thesis
    by (simp add: two_level_ledger_def example_defs)
qed

subsection \<open>Retirement\<close>

lemma retired_transfer_fails:
  assumes "owners s t \<noteq> 0" "isRetired s t"
  shows "isl (transferFrom s sender src dst t)"
    "isl (safeTransferFrom R E s now sender src dst t)"
    "\<not> paused s \<Longrightarrow> dst \<noteq> 0 \<Longrightarrow>
       transferFrom s sender src dst t = Inl (Require ''Cannot transfer retired credit'')"
    "\<not> paused s \<Longrightarrow> dst \<noteq> 0 \<Longrightarrow>
       safeTransferFrom R E s now sender src dst t =
         Inl (Require ''Cannot transfer retired credit'')"
  using assms
  by (simp_all add: safeTransferFrom_def transferFrom_def internal_update_def internal_ownerOf_def)

lemma retire_Inr:
  "retire s owner now t = Inr s1 \<Longrightarrow>
     owners s t = owner \<and> owners s1 t = owner \<and> isRetired s1 t \<and> retiredBy s1 t = owner \<and>
     retiredAt s1 t = now"
  by (auto simp: retire_def internal_ownerOf_def split: if_splits)

lemma retired_ledger_eq:
  "retired_ledger =
     minted_ledger\<lparr>isRetired := (isRetired minted_ledger)(1 := True),
       retiredBy := (retiredBy minted_ledger)(1 := 7),
       retiredAt := (retiredAt minted_ledger)(1 := 30),
       events := events minted_ledger @ [CreditRetired 7 1 30]\<rparr>"
  using minted_facts(4) [of 1] minted_facts(10) [of 1]
  by (simp add: retired_ledger_def retire_def internal_ownerOf_def exec_def)

lemma retired_ledger_facts:
  "owners retired_ledger 1 = 7" "isRetired retired_ledger 1" "\<not> paused retired_ledger"
  "hasRole retired_ledger MAIN_ADMIN_ROLE 1"
  using minted_facts(4) [of 1] minted_facts(7,8)
  by (simp_all add: retired_ledger_eq hasRole_def)

lemma retired_paused_ledger_eq:
  "retired_paused_ledger =
     retired_ledger\<lparr>paused := True, events := events retired_ledger @ [Paused 1]\<rparr>"
  using retired_ledger_facts(3,4)
  by (simp add: retired_paused_ledger_def pause_def checkRole_def internal_pause_def exec_def)

text \<open>Claim C4, as the code has it. Only the current owner can retire a credit: any other
  caller is rejected with \<open>Only owner can retire credit\<close> (the spec's \<open>NotOwner\<close>). Once an
  owner (a real account, not the zero address) has retired a credit, then after any
  further transactions the credit still has that owner, is still retired, and still
  carries the \<open>retiredBy\<close> and \<open>retiredAt\<close> values set at retirement. Every transfer of
  it reverts: with \<open>Cannot transfer retired credit\<close> (\<open>RetiredCreditTransfer\<close>) when the
  ledger is not paused and the recipient is not the zero address, with \<open>EnforcedPause\<close>
  when the ledger is paused and the recipient is not zero. A second \<open>retire\<close> by the
  owner reverts with \<open>Credit already retired\<close> (\<open>AlreadyRetired\<close>), and by anyone else with
  \<open>Only owner can retire credit\<close>.\<close>

theorem retirement_is_final:
  "(owners s t \<noteq> caller \<longrightarrow>
      retire s caller now t = Inl (Require ''Only owner can retire credit'')) \<and>
   (retire s owner now t = Inr s1 \<and> owner \<noteq> 0 \<longrightarrow>
      owners (run d E s1 txs) t = owner \<and> isRetired (run d E s1 txs) t \<and>
      retiredBy (run d E s1 txs) t = owner \<and> retiredAt (run d E s1 txs) t = now \<and>
      isl (transferFrom (run d E s1 txs) sender src dst t) \<and>
      isl (safeTransferFrom R E (run d E s1 txs) now3 sender src dst t) \<and>
      (\<not> paused (run d E s1 txs) \<and> dst \<noteq> 0 \<longrightarrow>
         transferFrom (run d E s1 txs) sender src dst t =
           Inl (Require ''Cannot transfer retired credit'') \<and>
         safeTransferFrom R E (run d E s1 txs) now3 sender src dst t =
           Inl (Require ''Cannot transfer retired credit'')) \<and>
      (paused (run d E s1 txs) \<and> dst \<noteq> 0 \<longrightarrow>
         transferFrom (run d E s1 txs) sender src dst t = Inl EnforcedPause) \<and>
      retire (run d E s1 txs) owner now2 t = Inl (Require ''Credit already retired'') \<and>
      (caller2 \<noteq> owner \<longrightarrow>
         retire (run d E s1 txs) caller2 now2 t = Inl (Require ''Only owner can retire credit'')))"
proof -
  have first: "retire s caller now t = Inl (Require ''Only owner can retire credit'')"
    if "owners s t \<noteq> caller"
    using that by (simp add: retire_def internal_ownerOf_def)
  have later: "owners (run d E s1 txs) t = owner \<and> isRetired (run d E s1 txs) t \<and>
      retiredBy (run d E s1 txs) t = owner \<and> retiredAt (run d E s1 txs) t = now \<and>
      isl (transferFrom (run d E s1 txs) sender src dst t) \<and>
      isl (safeTransferFrom R E (run d E s1 txs) now3 sender src dst t) \<and>
      (\<not> paused (run d E s1 txs) \<and> dst \<noteq> 0 \<longrightarrow>
         transferFrom (run d E s1 txs) sender src dst t =
           Inl (Require ''Cannot transfer retired credit'') \<and>
         safeTransferFrom R E (run d E s1 txs) now3 sender src dst t =
           Inl (Require ''Cannot transfer retired credit'')) \<and>
      (paused (run d E s1 txs) \<and> dst \<noteq> 0 \<longrightarrow>
         transferFrom (run d E s1 txs) sender src dst t = Inl EnforcedPause) \<and>
      retire (run d E s1 txs) owner now2 t = Inl (Require ''Credit already retired'') \<and>
      (caller2 \<noteq> owner \<longrightarrow>
         retire (run d E s1 txs) caller2 now2 t = Inl (Require ''Only owner can retire credit''))"
    if r: "retire s owner now t = Inr s1" and nz: "owner \<noteq> 0"
  proof -
    let ?s = "run d E s1 txs"
    note a = retire_Inr [OF r]
    have ex: "owners s1 t \<noteq> 0" and ret: "isRetired s1 t"
      using a nz by simp_all
    have f: "frozen t s1 ?s"
      by (rule run_frozen)
    have kept: "owners ?s t = owner" "isRetired ?s t" "retiredBy ?s t = owner"
      "retiredAt ?s t = now"
      using f a ex ret by (simp_all add: frozen_def)
    have ex': "owners ?s t \<noteq> 0"
      using kept(1) nz by simp
    note tr = retired_transfer_fails [OF ex' kept(2)]
    have "transferFrom ?s sender src dst t = Inl EnforcedPause" if "paused ?s" "dst \<noteq> 0"
      using that by (simp add: paused_blocks_transfer)
    moreover have "retire ?s owner now2 t = Inl (Require ''Credit already retired'')"
      using kept(1,2) by (simp add: retire_def internal_ownerOf_def)
    moreover have "retire ?s caller2 now2 t = Inl (Require ''Only owner can retire credit'')"
      if "caller2 \<noteq> owner"
      using that kept(1) by (simp add: retire_def internal_ownerOf_def)
    ultimately show ?thesis
      using kept tr by blast
  qed
  show ?thesis
    using first later by blast
qed

theorem retirement_is_final_witness:
  "retire minted_ledger 8 30 1 = Inl (Require ''Only owner can retire credit'') \<and>
   retire minted_ledger 7 30 1 = Inr retired_ledger \<and>
   owners retired_ledger 1 = 7 \<and> isRetired retired_ledger 1 \<and>
   retiredBy retired_ledger 1 = 7 \<and> retiredAt retired_ledger 1 = 30 \<and>
   transferFrom retired_ledger 7 7 8 1 = Inl (Require ''Cannot transfer retired credit'') \<and>
   safeTransferFrom None example_env retired_ledger 31 7 7 8 1 =
     Inl (Require ''Cannot transfer retired credit'') \<and>
   retire retired_ledger 7 31 1 = Inl (Require ''Credit already retired'') \<and>
   retire retired_ledger 8 31 1 = Inl (Require ''Only owner can retire credit'') \<and>
   owners retired_paused_ledger 1 = 7 \<and> isRetired retired_paused_ledger 1 \<and>
   retiredBy retired_paused_ledger 1 = 7 \<and> retiredAt retired_paused_ledger 1 = 30 \<and>
   transferFrom retired_paused_ledger 7 7 8 1 = Inl EnforcedPause"
proof -
  have o: "owners minted_ledger 1 \<noteq> 8" and nz: "(7 :: address) \<noteq> 0" "(8 :: address) \<noteq> 0"
    and ne: "(8 :: address) \<noteq> 7"
    by (simp_all add: minted_facts)
  note T0 = retirement_is_final [where s = minted_ledger and t = 1 and caller = 8 and now = 30
      and owner = 7 and ?s1.0 = retired_ledger and E = example_env and d = 0 and R = None and ?now3.0 = 31 and txs = "[]"
      and sender = 7 and src = 7 and dst = 8 and ?now2.0 = 31 and ?caller2.0 = 8]
  note T1 = retirement_is_final [where s = minted_ledger and t = 1 and caller = 8 and now = 30
      and owner = 7 and ?s1.0 = retired_ledger and E = example_env and d = 0 and R = None and ?now3.0 = 31 and txs = "[(1, 40, Pause)]"
      and sender = 7 and src = 7 and dst = 8 and ?now2.0 = 31 and ?caller2.0 = 8]
  have r0: "run 0 example_env retired_ledger [] = retired_ledger"
    by simp
  have p0: "\<not> paused retired_ledger" and p1: "paused retired_paused_ledger"
    by (simp_all add: retired_ledger_facts retired_paused_ledger_eq)
  have "retire minted_ledger 8 30 1 = Inl (Require ''Only owner can retire credit'')"
    using T0 o by blast
  moreover have "owners retired_ledger 1 = 7 \<and> isRetired retired_ledger 1 \<and>
      retiredBy retired_ledger 1 = 7 \<and> retiredAt retired_ledger 1 = 30 \<and>
      transferFrom retired_ledger 7 7 8 1 = Inl (Require ''Cannot transfer retired credit'') \<and>
      safeTransferFrom None example_env retired_ledger 31 7 7 8 1 =
        Inl (Require ''Cannot transfer retired credit'') \<and>
      retire retired_ledger 7 31 1 = Inl (Require ''Credit already retired'') \<and>
      retire retired_ledger 8 31 1 = Inl (Require ''Only owner can retire credit'')"
    using T0 retired_ledger_retired nz ne p0 unfolding r0 by blast
  moreover have "owners retired_paused_ledger 1 = 7 \<and> isRetired retired_paused_ledger 1 \<and>
      retiredBy retired_paused_ledger 1 = 7 \<and> retiredAt retired_paused_ledger 1 = 30 \<and>
      transferFrom retired_paused_ledger 7 7 8 1 = Inl EnforcedPause"
    using T1 retired_ledger_retired nz p1 unfolding retired_paused_ledger_def [symmetric] by blast
  ultimately show ?thesis
    using retired_ledger_retired by blast
qed

text \<open>The claim as the spec words it fails on the kind of failure: the producer retires
  credit 1 and the main admin then pauses the ledger; a transfer of the retired credit
  now reverts with \<open>EnforcedPause\<close>, not with \<open>Cannot transfer retired credit\<close>. And a
  second \<open>retire\<close> sent by someone who is not the owner reverts with
  \<open>Only owner can retire credit\<close>, not with \<open>Credit already retired\<close>.\<close>

theorem retired_transfer_error_counterexample:
  "retire minted_ledger 7 30 1 = Inr retired_ledger \<and>
   reachable example_env retired_paused_ledger \<and>
   isRetired retired_paused_ledger 1 \<and> owners retired_paused_ledger 1 = 7 \<and>
   transferFrom retired_paused_ledger 7 7 8 1 = Inl EnforcedPause \<and>
   transferFrom retired_paused_ledger 7 7 8 1 \<noteq> Inl (Require ''Cannot transfer retired credit'') \<and>
   retire retired_ledger 8 31 1 = Inl (Require ''Only owner can retire credit'') \<and>
   retire retired_ledger 8 31 1 \<noteq> Inl (Require ''Credit already retired'')"
proof -
  have "reachable example_env retired_ledger"
    unfolding retired_ledger_def
    by (rule reachable_run [OF minted_reachable]) (simp add: valid_txs_def)
  then have "reachable example_env retired_paused_ledger"
    unfolding retired_paused_ledger_def
    by (rule reachable_run) (simp add: valid_txs_def)
  moreover have "transferFrom retired_paused_ledger 7 7 8 1 = Inl EnforcedPause"
    by (rule paused_blocks_transfer) (simp_all add: retired_paused_ledger_eq)
  moreover have "retire retired_ledger 8 31 1 = Inl (Require ''Only owner can retire credit'')"
    using retired_ledger_facts(1) by (simp add: retire_def internal_ownerOf_def)
  ultimately show ?thesis
    using retired_ledger_retired retired_ledger_facts
    by (simp add: retired_paused_ledger_eq)
qed

subsection \<open>Certification signatures\<close>

lemma length_be_bytes [simp]: "length (be_bytes n v) = n"
  by (induction n arbitrary: v) simp_all

lemma decimal_32: "decimal 32 = ''32''"
  by code_simp

lemma hashMessage_digest:
  "hashMessage E (be_bytes 32 (unat d)) = toEthSignedMessageHash E d"
  by (simp add: hashMessage_def toEthSignedMessageHash_def decimal_32 del: decimal.simps)

text \<open>Claim C3. The contract hashes \<open>abi.encodePacked(to, amount, certificationHash)\<close>,
  84 bytes; the backend hashes the standard ABI encoding of the same tuple, 96 bytes. The
  two byte strings differ for every tuple, so the two sides do not reconstruct the same
  encoding; what they then do with the 32-byte hash (the signed-message prefix) agrees.\<close>

theorem certification_payloads_differ:
  "length (encodePacked to amount h) = 84 \<and>
   length (abi_encode to amount h) = 96 \<and>
   encodePacked to amount h \<noteq> abi_encode to amount h \<and>
   certification_digest E to amount h =
     toEthSignedMessageHash E (keccak256 E (encodePacked to amount h)) \<and>
   backend_digest E to amount h =
     toEthSignedMessageHash E (keccak256 E (abi_encode to amount h))"
proof -
  have a: "length (encodePacked to amount h) = 84"
    and b: "length (abi_encode to amount h) = 96"
    by (simp_all add: encodePacked_def abi_encode_def)
  have "encodePacked to amount h \<noteq> abi_encode to amount h"
  proof
    assume "encodePacked to amount h = abi_encode to amount h"
    then have "length (encodePacked to amount h) = length (abi_encode to amount h)"
      by simp
    then show False
      using a b by simp
  qed
  then show ?thesis
    using a b by (simp add: certification_digest_def backend_digest_def hashMessage_digest)
qed

lemma recover_Inl:
  "recover E d sig = Inl e \<Longrightarrow>
     e = ECDSAInvalidSignatureLength (length sig) \<or>
     e = ECDSAInvalidSignatureS (be_nat (take 32 (drop 32 sig))) \<or>
     e = ECDSAInvalidSignature"
  by (auto simp: recover_def tryRecover_vrs_def Let_def split: if_splits)

lemma mint_signature_check:
  assumes "\<not> paused s" "to \<noteq> 0" "0 < amount" "amount \<le> 1000" "isProducer s to"
    "\<not> certificationHashUsed s h"
  shows "recover E (certification_digest E to amount h) sig = Inl e \<Longrightarrow>
           mintWithCertification R E s sender now to amount h sig = Inl e"
    and "recover E (certification_digest E to amount h) sig = Inr cert \<Longrightarrow>
           \<not> hasRole s CITY_ADMIN_ROLE cert \<Longrightarrow>
           mintWithCertification R E s sender now to amount h sig =
             Inl (Require ''Invalid certifier signature'')"
  using assms by (simp_all add: mintWithCertification_unfold)

lemma mint_needs_certifier:
  assumes "\<not> (\<exists>cert. recover E (certification_digest E to amount h) sig = Inr cert \<and>
               hasRole s CITY_ADMIN_ROLE cert)"
  shows "isl (mintWithCertification R E s sender now to amount h sig)"
proof (cases "mintWithCertification R E s sender now to amount h sig")
  case (Inl e)
  then show ?thesis by simp
next
  case (Inr s1)
  from mintWithCertification_Inr [OF Inr] assms show ?thesis
    by blast
qed

lemma run_isl:
  "isl (exec k E s sender now c) \<Longrightarrow> run k E s [(sender, now, c)] = s"
  by (cases "exec k E s sender now c") simp_all

text \<open>Claim C6, as the code has it. The backend's verifier answers \<open>(False, zero address)\<close>
  for every signature its library cannot recover a signer from, and also for an amount
  its encoder refuses; it has no other way to fail. The contract is different: when \<open>ECDSA.recover\<close> rejects the signature (wrong
  length, upper-range \<open>s\<close>, no signer), a \<open>mintWithCertification\<close> that has passed the
  earlier checks reverts with that library error, which is one of
  \<open>ECDSAInvalidSignatureLength\<close>, \<open>ECDSAInvalidSignatureS\<close> and \<open>ECDSAInvalidSignature\<close> and
  never \<open>Invalid certifier signature\<close>; the ledger is left as it was. A signature that is
  not 65 bytes long is always rejected so.\<close>

theorem malformed_signature_outcomes:
  "(recoverAddress L (backend_digest E producerAddress amount h) sig = None \<longrightarrow>
      verifyCertificationSignature E L node producerAddress amount h sig = (False, 0)) \<and>
   (MAX_SAFE_INTEGER < amount \<longrightarrow>
      verifyCertificationSignature E L node producerAddress amount h sig = (False, 0)) \<and>
   (length sig \<noteq> 65 \<longrightarrow>
      recover E d sig = Inl (ECDSAInvalidSignatureLength (length sig))) \<and>
   (\<not> paused s \<and> to \<noteq> 0 \<and> 0 < amount \<and> amount \<le> 1000 \<and> isProducer s to \<and>
    \<not> certificationHashUsed s h \<and>
    recover E (certification_digest E to amount h) sig = Inl e \<longrightarrow>
      mintWithCertification R E s sender now to amount h sig = Inl e \<and>
      (e = ECDSAInvalidSignatureLength (length sig) \<or>
       e = ECDSAInvalidSignatureS (be_nat (take 32 (drop 32 sig))) \<or>
       e = ECDSAInvalidSignature) \<and>
      e \<noteq> Require ''Invalid certifier signature'' \<and>
      run k E s [(sender, now, MintWithCertification to amount h sig)] = s)"
proof -
  have off: "verifyCertificationSignature E L node producerAddress amount h sig = (False, 0)"
    if "recoverAddress L (backend_digest E producerAddress amount h) sig = None"
    using that
    by (simp add: verifyCertificationSignature_def backend_digest_def encode_request_def Let_def)
  have big: "verifyCertificationSignature E L node producerAddress amount h sig = (False, 0)"
    if "MAX_SAFE_INTEGER < amount"
    using that by (simp add: verifyCertificationSignature_def encode_request_def)
  have len: "recover E d sig = Inl (ECDSAInvalidSignatureLength (length sig))"
    if "length sig \<noteq> 65"
    using that by (simp add: recover_def)
  have on: "mintWithCertification R E s sender now to amount h sig = Inl e \<and>
      (e = ECDSAInvalidSignatureLength (length sig) \<or>
       e = ECDSAInvalidSignatureS (be_nat (take 32 (drop 32 sig))) \<or>
       e = ECDSAInvalidSignature) \<and>
      e \<noteq> Require ''Invalid certifier signature'' \<and>
      run k E s [(sender, now, MintWithCertification to amount h sig)] = s"
    if "\<not> paused s \<and> to \<noteq> 0 \<and> 0 < amount \<and> amount \<le> 1000 \<and> isProducer s to \<and>
      \<not> certificationHashUsed s h \<and>
      recover E (certification_digest E to amount h) sig = Inl e"
  proof -
    have m: "mintWithCertification R E s sender now to amount h sig = Inl e" for R
      using that by (intro mint_signature_check(1)) simp_all
    have k: "e = ECDSAInvalidSignatureLength (length sig) \<or>
       e = ECDSAInvalidSignatureS (be_nat (take 32 (drop 32 sig))) \<or>
       e = ECDSAInvalidSignature"
      using that recover_Inl by blast
    then have "e \<noteq> Require ''Invalid certifier signature''"
      by auto
    then show ?thesis
      using m [of "reentry_at k E"] m [of R] k by (simp add: exec_mint)
  qed
  show ?thesis
    using off big len on by blast
qed

theorem malformed_signature_outcomes_witness:
  "verifyCertificationSignature example_env example_ethers (Some chain_ledger) 7 2 0xAA [] =
     (False, 0) \<and>
   recover example_env (certification_digest example_env 7 2 0xAA) [] =
     Inl (ECDSAInvalidSignatureLength 0) \<and>
   mintWithCertification None example_env chain_ledger 8 20 7 2 0xAA [] =
     Inl (ECDSAInvalidSignatureLength 0) \<and>
   run 0 example_env chain_ledger [(8, 20, MintWithCertification 7 2 0xAA [])] = chain_ledger"
proof -
  note T = malformed_signature_outcomes [where L = example_ethers and E = example_env
      and producerAddress = 7 and amount = 2 and h = "0xAA" and sig = "[]"
      and node = "Some chain_ledger" and d = "certification_digest example_env 7 2 0xAA"
      and s = chain_ledger and to = 7 and e = "ECDSAInvalidSignatureLength 0"
      and sender = 8 and now = 20 and R = None and k = 0]
  have a: "recoverAddress example_ethers (backend_digest example_env 7 2 0xAA) [] = None"
    by (simp add: example_ethers_def)
  have b: "length ([] :: byte list) \<noteq> 65"
    by simp
  have r: "recover example_env (certification_digest example_env 7 2 0xAA) [] =
      Inl (ECDSAInvalidSignatureLength 0)"
    using T b by simp
  have "mintWithCertification None example_env chain_ledger 8 20 7 2 0xAA [] =
      Inl (ECDSAInvalidSignatureLength 0) \<and>
    run 0 example_env chain_ledger [(8, 20, MintWithCertification 7 2 0xAA [])] = chain_ledger"
    using T r chain_facts(1,3,4) by simp
  then show ?thesis
    using T a r by blast
qed

text \<open>The claim as the spec words it fails on the contract's side: a mint that is in order
  except for a 64-byte signature reverts inside the signature library, with
  \<open>ECDSAInvalidSignatureLength\<close>, and not with \<open>Invalid certifier signature\<close>.\<close>

theorem malformed_signature_on_chain_counterexample:
  "isProducer chain_ledger 7 \<and> \<not> paused chain_ledger \<and>
   \<not> certificationHashUsed chain_ledger 0xAA \<and>
   mintWithCertification None example_env chain_ledger 8 20 7 2 0xAA (replicate 64 0) =
     Inl (ECDSAInvalidSignatureLength 64) \<and>
   mintWithCertification None example_env chain_ledger 8 20 7 2 0xAA (replicate 64 0) \<noteq>
     Inl (Require ''Invalid certifier signature'')"
proof -
  have "recover example_env (certification_digest example_env 7 2 0xAA) (replicate 64 0) =
      Inl (ECDSAInvalidSignatureLength 64)"
    by (simp add: recover_def)
  then have "mintWithCertification None example_env chain_ledger 8 20 7 2 0xAA (replicate 64 0) =
     Inl (ECDSAInvalidSignatureLength 64)"
    by (intro mint_signature_check(1)) (simp_all add: chain_facts)
  then show ?thesis
    by (simp add: chain_facts)
qed

text \<open>Claim C8, as the code has it. A \<open>mintWithCertification\<close> whose signature does not
  recover to a holder of \<open>CITY_ADMIN_ROLE\<close> always reverts, so that no credit is minted and
  the ledger, the used hashes included, is left as it was. The revert is
  \<open>Invalid certifier signature\<close> (the spec's \<open>InvalidCertifierSignature\<close>) when the call
  has passed the earlier checks (not paused, non-zero registered producer, amount from 1
  to 1000, unused hash) and the signature recovers to an account without the role.\<close>

theorem uncertified_mint_rejected:
  "(\<not> (\<exists>cert. recover E (certification_digest E to amount h) sig = Inr cert \<and>
             hasRole s CITY_ADMIN_ROLE cert) \<longrightarrow>
      isl (mintWithCertification R E s sender now to amount h sig) \<and>
      run k E s [(sender, now, MintWithCertification to amount h sig)] = s) \<and>
   (\<not> paused s \<and> to \<noteq> 0 \<and> 0 < amount \<and> amount \<le> 1000 \<and> isProducer s to \<and>
    \<not> certificationHashUsed s h \<and>
    recover E (certification_digest E to amount h) sig = Inr signer \<and>
    \<not> hasRole s CITY_ADMIN_ROLE signer \<longrightarrow>
      mintWithCertification R E s sender now to amount h sig =
        Inl (Require ''Invalid certifier signature''))"
proof -
  have "isl (mintWithCertification R E s sender now to amount h sig) \<and>
      run k E s [(sender, now, MintWithCertification to amount h sig)] = s"
    if "\<not> (\<exists>cert. recover E (certification_digest E to amount h) sig = Inr cert \<and>
             hasRole s CITY_ADMIN_ROLE cert)"
    using mint_needs_certifier [OF that, of R] mint_needs_certifier [OF that, of "reentry_at k E"]
      run_isl [of k E s sender now "MintWithCertification to amount h sig"]
    by (simp add: exec_mint)
  moreover have "mintWithCertification R E s sender now to amount h sig =
        Inl (Require ''Invalid certifier signature'')"
    if "\<not> paused s \<and> to \<noteq> 0 \<and> 0 < amount \<and> amount \<le> 1000 \<and> isProducer s to \<and>
      \<not> certificationHashUsed s h \<and>
      recover E (certification_digest E to amount h) sig = Inr signer \<and>
      \<not> hasRole s CITY_ADMIN_ROLE signer"
    using that by (simp add: mintWithCertification_unfold)
  ultimately show ?thesis
    by blast
qed

lemma forger_recover: "recover forger_env d example_signature = Inr 6"
  by (simp add: recover_def tryRecover_vrs_def forger_env_def example_signature_def
      be_nat_zeros SECP256K1_HALF_N_def)

lemma forger_no_role: "\<not> hasRole chain_ledger CITY_ADMIN_ROLE 6"
  by (simp add: chain_ledger_def example_defs)

theorem uncertified_mint_rejected_witness:
  "recover forger_env (certification_digest forger_env 7 2 0xAA) example_signature = Inr 6 \<and>
   \<not> hasRole chain_ledger CITY_ADMIN_ROLE 6 \<and>
   mintWithCertification None forger_env chain_ledger 8 20 7 2 0xAA example_signature =
     Inl (Require ''Invalid certifier signature'') \<and>
   run 0 forger_env chain_ledger [(8, 20, MintWithCertification 7 2 0xAA example_signature)] =
     chain_ledger"
proof -
  note T = uncertified_mint_rejected [where E = forger_env and to = 7 and amount = 2
      and h = "0xAA" and sig = example_signature and s = chain_ledger and sender = 8
      and now = 20 and signer = 6 and R = None and k = 0]
  have none: "\<not> (\<exists>cert. recover forger_env (certification_digest forger_env 7 2 0xAA)
      example_signature = Inr cert \<and> hasRole chain_ledger CITY_ADMIN_ROLE cert)"
    using forger_no_role by (simp add: forger_recover)
  have "run 0 forger_env chain_ledger [(8, 20, MintWithCertification 7 2 0xAA example_signature)] =
     chain_ledger"
    using T none by blast
  moreover have "mintWithCertification None forger_env chain_ledger 8 20 7 2 0xAA example_signature =
     Inl (Require ''Invalid certifier signature'')"
    using T forger_recover forger_no_role chain_facts(1,3,4) by simp
  ultimately show ?thesis
    using forger_recover forger_no_role by simp
qed

text \<open>The claim as the spec words it fails on the kind of failure: with a signature that
  recovers to account 6, which holds no role, a mint of amount 0 reverts with
  \<open>Invalid amount\<close>, and a mint under an empty signature, from which nothing is recovered,
  reverts with \<open>ECDSAInvalidSignatureLength\<close>.\<close>

theorem uncertified_mint_error_counterexample:
  "recover forger_env (certification_digest forger_env 7 0 0xAA) example_signature = Inr 6 \<and>
   \<not> hasRole chain_ledger CITY_ADMIN_ROLE 6 \<and>
   mintWithCertification None forger_env chain_ledger 8 20 7 0 0xAA example_signature =
     Inl (Require ''Invalid amount'') \<and>
   mintWithCertification None forger_env chain_ledger 8 20 7 0 0xAA example_signature \<noteq>
     Inl (Require ''Invalid certifier signature'') \<and>
   mintWithCertification None forger_env chain_ledger 8 20 7 2 0xAA [] =
     Inl (ECDSAInvalidSignatureLength 0) \<and>
   mintWithCertification None forger_env chain_ledger 8 20 7 2 0xAA [] \<noteq>
     Inl (Require ''Invalid certifier signature'')"
proof -
  have "mintWithCertification None forger_env chain_ledger 8 20 7 0 0xAA example_signature =
     Inl (Require ''Invalid amount'')"
    by (simp add: mintWithCertification_unfold chain_facts)
  moreover have "mintWithCertification None forger_env chain_ledger 8 20 7 2 0xAA [] =
     Inl (ECDSAInvalidSignatureLength 0)"
    by (intro mint_signature_check(1)) (simp_all add: chain_facts recover_def)
  ultimately show ?thesis
    using forger_recover forger_no_role by simp
qed

end
